theory Spec2Isabelle
  imports Main
begin

text \<open>
  A verification development for the family storytelling web application: its route
  middleware (\<^verbatim>\<open>src/middleware.js\<close> and the second copy of it kept in the repository) and the
  idle-session guard of \<^verbatim>\<open>src/contexts/AuthContext.jsx\<close>. The JavaScript of both files
  is embedded as HOL functions; the library calls they make (\<^verbatim>\<open>decodeURIComponent\<close>,
  \<^verbatim>\<open>JSON.parse\<close>, \<^verbatim>\<open>JSON.stringify\<close>, \<^verbatim>\<open>setTimeout\<close>, \<^verbatim>\<open>clearTimeout\<close>) are modelled after
  ECMAScript and the HTML timer interface.
\<close>

section \<open>JavaScript values and strings\<close>

text \<open>
  A JavaScript string is held as an Isabelle \<open>string\<close>: the UTF-8 bytes of a well-formed
  Unicode text. \<^verbatim>\<open>startsWith\<close>, \<^verbatim>\<open>includes\<close> and \<^verbatim>\<open>===\<close> against ASCII literals give
  the same answer on these bytes as on the UTF-16 code units of the engine.
\<close>

fun startsWith :: "string \<Rightarrow> string \<Rightarrow> bool" where
  "startsWith s [] = True"
| "startsWith [] (p # ps) = False"
| "startsWith (c # cs) (p # ps) = (c = p \<and> startsWith cs ps)"

fun includes_str :: "string \<Rightarrow> string \<Rightarrow> bool" where
  "includes_str [] sub = (sub = [])"
| "includes_str (c # cs) sub = (startsWith (c # cs) sub \<or> includes_str cs sub)"

text \<open>
  The values \<^verbatim>\<open>JSON.parse\<close> can return. A number keeps its sign, its decimal digits
  \<open>m\<close> and its decimal exponent \<open>e\<close> (the value is \<open>m * 10 ^ e\<close>); an object keeps its
  members in the order of the text, a later member of the same name taking precedence.
\<close>

datatype js_error = URIError | SyntaxError

datatype jsval =
    JNull
  | JBool bool
  | JNum bool nat int
  | JStr string
  | JArr "jsval list"
  | JObj "(string \<times> jsval) list"

text \<open>
  Truthiness, as \<^verbatim>\<open>!user\<close> and \<^verbatim>\<open>user && ...\<close> test it. A number is falsy when it is
  zero as a double: its decimal value is zero or rounds to zero, which is the case up to
  \<open>2 ^ - 1075\<close>, half of the smallest positive double.
\<close>

definition number_nonzero :: "nat \<Rightarrow> int \<Rightarrow> bool" where
  "number_nonzero m e = (m \<noteq> 0 \<and> (0 \<le> e \<or> (10::int) ^ nat (- e) < int m * 2 ^ 1075))"

fun truthy :: "jsval \<Rightarrow> bool" where
  "truthy JNull = False"
| "truthy (JBool b) = b"
| "truthy (JNum neg m e) = number_nonzero m e"
| "truthy (JStr s) = (s \<noteq> [])"
| "truthy (JArr vs) = True"
| "truthy (JObj kvs) = True"

text \<open>
  \<^verbatim>\<open>user.role\<close>: the member named role of an object, and \<^verbatim>\<open>undefined\<close> (here \<open>None\<close>)
  for an object without it and for every other truthy value.
\<close>

fun role_of :: "jsval \<Rightarrow> jsval option" where
  "role_of (JObj kvs) = map_of (rev kvs) ''role''"
| "role_of v = None"

section \<open>decodeURIComponent\<close>

text \<open>
  Every \<^verbatim>\<open>%\<close> must be followed by two hexadecimal digits, and the escaped octets from
  \<open>0x80\<close> on must form well-formed UTF-8 sequences, each octet of a sequence escaped;
  otherwise the call throws a \<^verbatim>\<open>URIError\<close>. The text is read in two passes: the escapes
  first, then the octet sequences.
\<close>

datatype tok = Lit char | Esc nat

definition hexval :: "char \<Rightarrow> nat option" where
  "hexval c = (let n = of_char c :: nat in
     if 48 \<le> n \<and> n \<le> 57 then Some (n - 48)
     else if 65 \<le> n \<and> n \<le> 70 then Some (n - 55)
     else if 97 \<le> n \<and> n \<le> 102 then Some (n - 87)
     else None)"

fun percent_tokens :: "string \<Rightarrow> tok list option" where
  "percent_tokens [] = Some []"
| "percent_tokens (c # cs) =
     (if c \<noteq> CHR ''%'' then map_option (Cons (Lit c)) (percent_tokens cs)
      else (case cs of
              h1 # h2 # rest \<Rightarrow>
                (case (hexval h1, hexval h2) of
                   (Some a, Some b) \<Rightarrow> map_option (Cons (Esc (16 * a + b))) (percent_tokens rest)
                 | _ \<Rightarrow> None)
            | _ \<Rightarrow> None))"

definition cont :: "nat \<Rightarrow> bool" where
  "cont b = (128 \<le> b \<and> b \<le> 191)"

definition utf8_pair :: "nat \<Rightarrow> nat \<Rightarrow> bool" where
  "utf8_pair b1 b2 = (194 \<le> b1 \<and> b1 \<le> 223 \<and> cont b2)"

definition utf8_triple :: "nat \<Rightarrow> nat \<Rightarrow> nat \<Rightarrow> bool" where
  "utf8_triple b1 b2 b3 =
     (cont b3 \<and>
      (if b1 = 224 then 160 \<le> b2 \<and> b2 \<le> 191
       else if b1 = 237 then 128 \<le> b2 \<and> b2 \<le> 159
       else 225 \<le> b1 \<and> b1 \<le> 239 \<and> cont b2))"

definition utf8_quad :: "nat \<Rightarrow> nat \<Rightarrow> nat \<Rightarrow> nat \<Rightarrow> bool" where
  "utf8_quad b1 b2 b3 b4 =
     (cont b3 \<and> cont b4 \<and>
      (if b1 = 240 then 144 \<le> b2 \<and> b2 \<le> 191
       else if b1 = 244 then 128 \<le> b2 \<and> b2 \<le> 143
       else 241 \<le> b1 \<and> b1 \<le> 243 \<and> cont b2))"

fun escaped_octets :: "tok list \<Rightarrow> string option" where
  "escaped_octets [] = Some []"
| "escaped_octets (Lit c # ts) = map_option (Cons c) (escaped_octets ts)"
| "escaped_octets (Esc b # ts) =
     (if b < 128 then map_option (Cons (char_of b)) (escaped_octets ts)
      else if b < 224 then
        (case ts of
           Esc b2 # r \<Rightarrow>
             if utf8_pair b b2 then map_option (append (map char_of [b, b2])) (escaped_octets r)
             else None
         | _ \<Rightarrow> None)
      else if b < 240 then
        (case ts of
           Esc b2 # Esc b3 # r \<Rightarrow>
             if utf8_triple b b2 b3
             then map_option (append (map char_of [b, b2, b3])) (escaped_octets r)
             else None
         | _ \<Rightarrow> None)
      else
        (case ts of
           Esc b2 # Esc b3 # Esc b4 # r \<Rightarrow>
             if utf8_quad b b2 b3 b4
             then map_option (append (map char_of [b, b2, b3, b4])) (escaped_octets r)
             else None
         | _ \<Rightarrow> None))"

definition decodeURIComponent :: "string \<Rightarrow> js_error + string" where
  "decodeURIComponent s =
     (case percent_tokens s of
        None \<Rightarrow> Inl URIError
      | Some ts \<Rightarrow> (case escaped_octets ts of None \<Rightarrow> Inl URIError | Some r \<Rightarrow> Inr r))"

section \<open>JSON.parse\<close>

text \<open>
  The JSON grammar of ECMAScript: a lexer for the tokens, then a parser for the values.
  A string token is read as a list of units, an octet of the text or the code unit of a
  \<^verbatim>\<open>\u\<close> escape; the escaped code units are then written in UTF-8, a surrogate pair as
  one code point.
  Both recurse on what the previous step left of the input; the comparisons of lengths in
  \<open>jlex\<close>, \<open>parse_elements\<close> and \<open>parse_members\<close> make that visible to the termination
  proofs, and they always hold (see the facts about the parser below).
\<close>

datatype jtoken =
    TLBrace | TRBrace | TLBrack | TRBrack | TColon | TComma
  | TString string | TNumber bool nat int | TTrue | TFalse | TNull

definition is_ws :: "char \<Rightarrow> bool" where
  "is_ws c = (c = CHR 0x20 \<or> c = CHR 0x09 \<or> c = CHR 0x0A \<or> c = CHR 0x0D)"

definition is_digit :: "char \<Rightarrow> bool" where
  "is_digit c = (48 \<le> (of_char c :: nat) \<and> (of_char c :: nat) \<le> 57)"

definition digits_value :: "string \<Rightarrow> nat" where
  "digits_value ds = foldl (\<lambda>acc d. 10 * acc + (of_char d - 48)) 0 ds"

definition simple_escape :: "char \<Rightarrow> char option" where
  "simple_escape e =
     (if e = CHR 0x22 then Some (CHR 0x22)
      else if e = CHR 0x5C then Some (CHR 0x5C)
      else if e = CHR ''/'' then Some (CHR ''/'')
      else if e = CHR ''b'' then Some (CHR 0x08)
      else if e = CHR ''f'' then Some (CHR 0x0C)
      else if e = CHR ''n'' then Some (CHR 0x0A)
      else if e = CHR ''r'' then Some (CHR 0x0D)
      else if e = CHR ''t'' then Some (CHR 0x09)
      else None)"

definition hex4 :: "char \<Rightarrow> char \<Rightarrow> char \<Rightarrow> char \<Rightarrow> nat option" where
  "hex4 a b c d =
     (case (hexval a, hexval b, hexval c, hexval d) of
        (Some w, Some x, Some y, Some z) \<Rightarrow> Some (4096 * w + 256 * x + 16 * y + z)
      | _ \<Rightarrow> None)"

fun lex_string :: "string \<Rightarrow> ((char + nat) list \<times> string) option" where
  "lex_string [] = None"
| "lex_string (c # cs) =
     (if c = CHR 0x22 then Some ([], cs)
      else if c = CHR 0x5C then
        (case cs of
           [] \<Rightarrow> None
         | e # r \<Rightarrow>
             if e = CHR ''u'' then
               (case r of
                  h1 # h2 # h3 # h4 # r' \<Rightarrow>
                    (case hex4 h1 h2 h3 h4 of
                       None \<Rightarrow> None
                     | Some u \<Rightarrow> map_option (\<lambda>(us, rest). (Inr u # us, rest)) (lex_string r'))
                | _ \<Rightarrow> None)
             else
               (case simple_escape e of
                  None \<Rightarrow> None
                | Some ch \<Rightarrow> map_option (\<lambda>(us, rest). (Inl ch # us, rest)) (lex_string r)))
      else if (of_char c :: nat) < 32 then None
      else map_option (\<lambda>(us, rest). (Inl c # us, rest)) (lex_string cs))"

definition utf8_encode :: "nat \<Rightarrow> string" where
  "utf8_encode cp =
     (if cp < 128 then [char_of cp]
      else if cp < 2048 then map char_of [192 + cp div 64, 128 + cp mod 64]
      else if cp < 65536 then
        map char_of [224 + cp div 4096, 128 + cp div 64 mod 64, 128 + cp mod 64]
      else
        map char_of
          [240 + cp div 262144, 128 + cp div 4096 mod 64, 128 + cp div 64 mod 64, 128 + cp mod 64])"

fun units_to_utf8 :: "(char + nat) list \<Rightarrow> string" where
  "units_to_utf8 [] = []"
| "units_to_utf8 (Inl c # us) = c # units_to_utf8 us"
| "units_to_utf8 (Inr u # us) =
     (if 55296 \<le> u \<and> u \<le> 56319 then
        (case us of
           Inr lo # us' \<Rightarrow>
             if 56320 \<le> lo \<and> lo \<le> 57343
             then utf8_encode (65536 + (u - 55296) * 1024 + (lo - 56320)) @ units_to_utf8 us'
             else utf8_encode u @ units_to_utf8 us
         | _ \<Rightarrow> utf8_encode u @ units_to_utf8 us)
      else utf8_encode u @ units_to_utf8 us)"

definition lex_number :: "string \<Rightarrow> (jtoken \<times> string) option" where
  "lex_number s =
     (let neg = startsWith s ''-'';
          s1 = (if neg then tl s else s);
          ds = (if startsWith s1 ''0'' then ''0'' else takeWhile is_digit s1);
          s2 = drop (length ds) s1;
          has_frac = startsWith s2 ''.'';
          fs = (if has_frac then takeWhile is_digit (tl s2) else []);
          s3 = (if has_frac then drop (length fs) (tl s2) else s2);
          has_exp = (startsWith s3 ''e'' \<or> startsWith s3 ''E'');
          s4 = (if has_exp then tl s3 else s3);
          eneg = (has_exp \<and> startsWith s4 ''-'');
          s5 = (if has_exp \<and> (startsWith s4 ''-'' \<or> startsWith s4 ''+'') then tl s4 else s4);
          es = (if has_exp then takeWhile is_digit s5 else []);
          s6 = drop (length es) s5;
          ex = (if eneg then - int (digits_value es) else int (digits_value es))
      in if ds = [] \<or> (has_frac \<and> fs = []) \<or> (has_exp \<and> es = []) then None
         else Some (TNumber neg (digits_value (ds @ fs)) (ex - int (length fs)), s6))"

function jlex :: "string \<Rightarrow> jtoken list option" where
  "jlex [] = Some []"
| "jlex (c # cs) =
     (if is_ws c then jlex cs
      else if c = CHR ''{'' then map_option (Cons TLBrace) (jlex cs)
      else if c = CHR ''}'' then map_option (Cons TRBrace) (jlex cs)
      else if c = CHR ''['' then map_option (Cons TLBrack) (jlex cs)
      else if c = CHR '']'' then map_option (Cons TRBrack) (jlex cs)
      else if c = CHR '':'' then map_option (Cons TColon) (jlex cs)
      else if c = CHR '','' then map_option (Cons TComma) (jlex cs)
      else if c = CHR 0x22 then
        (case lex_string cs of
           None \<Rightarrow> None
         | Some (us, rest) \<Rightarrow>
             if length rest < length (c # cs)
             then map_option (Cons (TString (units_to_utf8 us))) (jlex rest)
             else None)
      else if c = CHR ''-'' \<or> is_digit c then
        (case lex_number (c # cs) of
           None \<Rightarrow> None
         | Some (t, rest) \<Rightarrow>
             if length rest < length (c # cs) then map_option (Cons t) (jlex rest) else None)
      else if startsWith (c # cs) ''true'' then map_option (Cons TTrue) (jlex (drop 3 cs))
      else if startsWith (c # cs) ''false'' then map_option (Cons TFalse) (jlex (drop 4 cs))
      else if startsWith (c # cs) ''null'' then map_option (Cons TNull) (jlex (drop 3 cs))
      else None)"
  by pat_completeness auto
termination
  by (relation "measure length") auto

function parse_value :: "jtoken list \<Rightarrow> (jsval \<times> jtoken list) option"
  and parse_elements :: "jsval list \<Rightarrow> jtoken list \<Rightarrow> (jsval list \<times> jtoken list) option"
  and parse_members ::
    "(string \<times> jsval) list \<Rightarrow> jtoken list \<Rightarrow> ((string \<times> jsval) list \<times> jtoken list) option"
where
  "parse_value ts =
     (case ts of
        [] \<Rightarrow> None
      | t # r \<Rightarrow>
          (case t of
             TNull \<Rightarrow> Some (JNull, r)
           | TTrue \<Rightarrow> Some (JBool True, r)
           | TFalse \<Rightarrow> Some (JBool False, r)
           | TNumber neg m e \<Rightarrow> Some (JNum neg m e, r)
           | TString s \<Rightarrow> Some (JStr s, r)
           | TLBrack \<Rightarrow>
               (case r of
                  TRBrack # r' \<Rightarrow> Some (JArr [], r')
                | _ \<Rightarrow>
                    (case parse_elements [] r of
                       None \<Rightarrow> None
                     | Some (vs, r') \<Rightarrow> Some (JArr vs, r')))
           | TLBrace \<Rightarrow>
               (case r of
                  TRBrace # r' \<Rightarrow> Some (JObj [], r')
                | _ \<Rightarrow>
                    (case parse_members [] r of
                       None \<Rightarrow> None
                     | Some (kvs, r') \<Rightarrow> Some (JObj kvs, r')))
           | _ \<Rightarrow> None))"
| "parse_elements acc ts =
     (case parse_value ts of
        None \<Rightarrow> None
      | Some (v, r) \<Rightarrow>
          (case r of
             TComma # r' \<Rightarrow>
               if length r' < length ts then parse_elements (acc @ [v]) r' else None
           | TRBrack # r' \<Rightarrow> Some (acc @ [v], r')
           | _ \<Rightarrow> None))"
| "parse_members acc ts =
     (case ts of
        TString k # TColon # ts' \<Rightarrow>
          (case parse_value ts' of
             None \<Rightarrow> None
           | Some (v, r) \<Rightarrow>
               (case r of
                  TComma # r' \<Rightarrow>
                    if length r' < length ts then parse_members (acc @ [(k, v)]) r' else None
                | TRBrace # r' \<Rightarrow> Some (acc @ [(k, v)], r')
                | _ \<Rightarrow> None))
      | _ \<Rightarrow> None)"
  by pat_completeness auto
termination
  by (relation "measure (\<lambda>x. case x of
         Inl ts \<Rightarrow> 2 * length ts
       | Inr (Inl (acc, ts)) \<Rightarrow> 2 * length ts + 1
       | Inr (Inr (acc, ts)) \<Rightarrow> 2 * length ts + 1)") auto

declare parse_value.simps [simp del] parse_elements.simps [simp del]
  parse_members.simps [simp del]

definition JSON_parse :: "string \<Rightarrow> js_error + jsval" where
  "JSON_parse s =
     (case jlex s of
        None \<Rightarrow> Inl SyntaxError
      | Some ts \<Rightarrow>
          (case parse_value ts of
             Some (v, []) \<Rightarrow> Inr v
           | _ \<Rightarrow> Inl SyntaxError))"

section \<open>Route middleware (\<^verbatim>\<open>src/middleware.js\<close>)\<close>

text \<open>
  The middleware reads the path of the request and the value of the cookie named user
  (\<open>None\<close> when the request has no such cookie) and answers \<^verbatim>\<open>NextResponse.next()\<close> or a
  redirect. \<open>getUser_try\<close> is the body of the \<^verbatim>\<open>try\<close> block of \<^verbatim>\<open>getUser\<close>, with what it throws
  as a value; \<open>getUser\<close> adds the \<^verbatim>\<open>catch\<close>, which returns \<^verbatim>\<open>null\<close>. Its line on the console
  is not part of the answer and is left out. \<open>decide\<close> is the part of the function after
  \<^verbatim>\<open>const user = getUser()\<close>.
\<close>

datatype response = Next | Redirect string

definition publicRoutes :: "string list" where
  "publicRoutes =
     [''/'', ''/login'', ''/register'', ''/forgot-password'', ''/reset-password'',
      ''/about'', ''/contact'']"

definition parentOnlyRoutes :: "string list" where
  "parentOnlyRoutes =
     [''/dashboard'', ''/create-story'', ''/edit-story'', ''/my-stories'', ''/profile'',
      ''/settings'']"

definition bypassed :: "string \<Rightarrow> bool" where
  "bypassed pathname =
     (startsWith pathname ''/_next'' \<or> startsWith pathname ''/api'' \<or> includes_str pathname ''.'')"

definition is_public :: "string \<Rightarrow> bool" where
  "is_public pathname =
     (pathname \<in> set publicRoutes \<or>
      list_ex (\<lambda>route. startsWith pathname (route @ ''/'')) publicRoutes)"

definition is_parent_only :: "string \<Rightarrow> bool" where
  "is_parent_only pathname =
     list_ex (\<lambda>route. pathname = route \<or> startsWith pathname (route @ ''/'')) parentOnlyRoutes"

definition is_kid_dashboard :: "string \<Rightarrow> bool" where
  "is_kid_dashboard pathname =
     (pathname = ''/kid-dashboard'' \<or> startsWith pathname ''/kid-dashboard/'')"

definition getUser_try :: "string option \<Rightarrow> js_error + jsval" where
  "getUser_try cookie =
     (case cookie of
        None \<Rightarrow> Inr JNull
      | Some userCookie \<Rightarrow>
          if userCookie = [] then Inr JNull
          else (case decodeURIComponent userCookie of
                  Inl e \<Rightarrow> Inl e
                | Inr decoded \<Rightarrow> JSON_parse decoded))"

definition getUser :: "string option \<Rightarrow> jsval" where
  "getUser cookie = (case getUser_try cookie of Inl e \<Rightarrow> JNull | Inr v \<Rightarrow> v)"

definition decide :: "string \<Rightarrow> jsval \<Rightarrow> response" where
  "decide pathname user =
     (if is_public pathname then
        (if truthy user \<and> (pathname = ''/login'' \<or> pathname = ''/register'')
         then Redirect (if role_of user = Some (JStr ''child'') then ''/'' else ''/dashboard'')
         else Next)
      else if \<not> truthy user then Redirect ''/login''
      else if role_of user = Some (JStr ''parent'') then
        (if is_kid_dashboard pathname then Redirect ''/dashboard'' else Next)
      else if role_of user = Some (JStr ''child'') then
        (if is_parent_only pathname then Redirect ''/'' else Next)
      else Next)"

definition middleware :: "string \<Rightarrow> string option \<Rightarrow> response" where
  "middleware pathname cookie =
     (if bypassed pathname then Next else decide pathname (getUser cookie))"

text \<open>
  The second copy of the middleware in the repository differs in one call: its
  \<^verbatim>\<open>getUser\<close> parses the cookie as it is, without \<^verbatim>\<open>decodeURIComponent\<close>.
\<close>

definition getUser_try_part000 :: "string option \<Rightarrow> js_error + jsval" where
  "getUser_try_part000 cookie =
     (case cookie of
        None \<Rightarrow> Inr JNull
      | Some userCookie \<Rightarrow> if userCookie = [] then Inr JNull else JSON_parse userCookie)"

definition getUser_part000 :: "string option \<Rightarrow> jsval" where
  "getUser_part000 cookie = (case getUser_try_part000 cookie of Inl e \<Rightarrow> JNull | Inr v \<Rightarrow> v)"

definition middleware_part000 :: "string \<Rightarrow> string option \<Rightarrow> response" where
  "middleware_part000 pathname cookie =
     (if bypassed pathname then Next else decide pathname (getUser_part000 cookie))"

text \<open>
  Both copies export the same \<^verbatim>\<open>config.matcher\<close>, the one pattern
  \<^verbatim>\<open>/((?!_next/static|_next/image|favicon.ico|public|api).*)\<close>. The framework runs the
  middleware on the requests whose path matches it: a slash, then a rest that begins with
  none of the five alternatives of the lookahead and that \<^verbatim>\<open>.*\<close> matches to its end. The dot
  of \<^verbatim>\<open>favicon.ico\<close> and the dot of \<^verbatim>\<open>.*\<close> stand for any character but a line break. On
  the other requests the middleware is not run (\<open>None\<close>) and the request goes on to its
  route.
\<close>

definition line_terminator :: "char \<Rightarrow> bool" where
  "line_terminator c = (c = CHR 0x0A \<or> c = CHR 0x0D)"

definition matcher_excluded :: "string \<Rightarrow> bool" where
  "matcher_excluded rest =
     (startsWith rest ''_next/static'' \<or> startsWith rest ''_next/image'' \<or>
      (case drop 7 rest of
         [] \<Rightarrow> False
       | x # r \<Rightarrow> startsWith rest ''favicon'' \<and> \<not> line_terminator x \<and> startsWith r ''ico'') \<or>
      startsWith rest ''public'' \<or> startsWith rest ''api'')"

definition config_matcher :: "string \<Rightarrow> bool" where
  "config_matcher pathname =
     (case pathname of
        [] \<Rightarrow> False
      | c # rest \<Rightarrow>
          c = CHR ''/'' \<and> \<not> matcher_excluded rest \<and> \<not> list_ex line_terminator rest)"

definition on_request :: "string \<Rightarrow> string option \<Rightarrow> response option" where
  "on_request pathname cookie =
     (if config_matcher pathname then Some (middleware pathname cookie) else None)"

section \<open>JSON.stringify of the cookie document\<close>

text \<open>
  \<^verbatim>\<open>JSON.stringify({ role, email })\<close> for two strings: both members in this order, each
  string quoted, with the quote, the backslash and the control characters escaped.
\<close>

definition hexdigit :: "nat \<Rightarrow> char" where
  "hexdigit n = (if n < 10 then char_of (48 + n) else char_of (87 + n))"

definition quote_char :: "char \<Rightarrow> string" where
  "quote_char c =
     (if c = CHR 0x22 then [CHR 0x5C, CHR 0x22]
      else if c = CHR 0x5C then [CHR 0x5C, CHR 0x5C]
      else if c = CHR 0x08 then [CHR 0x5C, CHR ''b'']
      else if c = CHR 0x0C then [CHR 0x5C, CHR ''f'']
      else if c = CHR 0x0A then [CHR 0x5C, CHR ''n'']
      else if c = CHR 0x0D then [CHR 0x5C, CHR ''r'']
      else if c = CHR 0x09 then [CHR 0x5C, CHR ''t'']
      else if (of_char c :: nat) < 32 then
        [CHR 0x5C, CHR ''u'', CHR ''0'', CHR ''0'', hexdigit (of_char c div 16),
         hexdigit (of_char c mod 16)]
      else [c])"

definition quoteJSONString :: "string \<Rightarrow> string" where
  "quoteJSONString s = [CHR 0x22] @ concat (map quote_char s) @ [CHR 0x22]"

definition stringify_role_email :: "string \<Rightarrow> string \<Rightarrow> string" where
  "stringify_role_email role email =
     ''{'' @ quoteJSONString ''role'' @ '':'' @ quoteJSONString role @ '','' @
     quoteJSONString ''email'' @ '':'' @ quoteJSONString email @ ''}''"

section \<open>Session guard (\<^verbatim>\<open>src/contexts/AuthContext.jsx\<close>)\<close>

text \<open>
  The state of the provider and of what it touches, as one record: the React state
  (\<open>user\<close>, \<open>loading\<close>, \<open>showIdleWarning\<close>), the three refs, and the environment: the clock
  that \<^verbatim>\<open>Date.now()\<close> reads, the pending timeouts of the window, the assignments made to
  \<^verbatim>\<open>document.cookie\<close>, the address the router was last sent to, the lines of
  \<^verbatim>\<open>console.error\<close> and the users collection of the document store.

  Where a handler awaits a call of the backend (\<^verbatim>\<open>logoutUser\<close>, \<^verbatim>\<open>loginUser\<close>,
  \<^verbatim>\<open>registerUser\<close>, whose code is not part of these files, and the calls of the document
  store), the outcome of the call is an argument of the handler: \<open>Resolved\<close> with the result
  or \<open>Rejected\<close> with the error. Other events can run while a call is awaited. For
  \<^verbatim>\<open>handleAutoLogout\<close> this matters: it cancels the timers before the call and signs the user
  out after it, so its two halves are functions of their own. The listener and
  \<^verbatim>\<open>refreshUser\<close> do nothing before their call; \<^verbatim>\<open>logout\<close>, \<^verbatim>\<open>login\<close> and \<^verbatim>\<open>register\<close> do
  nothing after theirs but write the cookie, the address and the console; each of these is
  one step. \<open>setUser\<close> includes the effects that React runs when \<open>user\<close> changes: the
  cleanup of the idle effect, the idle effect and the effect that sends a child away from
  the dashboard.
\<close>

definition IDLE_TIME :: nat where
  "IDLE_TIME = 30 * 60 * 1000"

definition WARNING_TIME :: nat where
  "WARNING_TIME = 5 * 60 * 1000"

text \<open>
  A pending timeout: the handle that \<^verbatim>\<open>setTimeout\<close> returned, the function it will call
  (the provider passes only \<^verbatim>\<open>showWarning\<close> and \<^verbatim>\<open>handleAutoLogout\<close>) and the time at which
  it is due. \<^verbatim>\<open>clearTimeout\<close> removes the timeout with the given handle, if it is still
  pending; a ref keeps the handle it was given also after that.
\<close>

datatype callback = ShowWarning | HandleAutoLogout

record timer =
  timer_id :: nat
  timer_cb :: callback
  timer_due :: nat

text \<open>
  A user document of the store, and the user object the provider keeps, are lists of
  named values, a later entry of the same name taking precedence (as in an object spread).
  \<open>FServerTimestamp\<close> is the sentinel that \<^verbatim>\<open>serverTimestamp()\<close> returns. \<open>auth_user\<close> is the
  user the authentication listener receives, \<open>login_user\<close> what \<^verbatim>\<open>loginUser\<close> resolves with,
  of which \<^verbatim>\<open>login\<close> reads the role and the email.
\<close>

datatype fval = FNull | FStr string | FServerTimestamp | FOther jsval

type_synonym profile = "(string \<times> fval) list"

definition field :: "profile \<Rightarrow> string \<Rightarrow> fval option" where
  "field d k = map_of (rev d) k"

record auth_user =
  uid :: string
  email :: "string option"
  displayName :: "string option"

record login_user =
  lu_role :: string
  lu_email :: string

datatype 'a promise = Resolved 'a | Rejected string

record guard =
  user :: "profile option"
  loading :: bool
  showIdleWarning :: bool
  idleTimerRef :: "nat option"
  warningTimerRef :: "nat option"
  lastActivityRef :: nat
  clock :: nat
  timers :: "timer list"
  next_timer_id :: nat
  document_cookie :: "string list"
  location :: string
  console :: "(string \<times> string) list"
  users_db :: "string \<Rightarrow> profile option"
  logouts_pending :: nat

definition initial :: "nat \<Rightarrow> string \<Rightarrow> (string \<Rightarrow> profile option) \<Rightarrow> guard" where
  "initial t0 href db =
     \<lparr>user = None, loading = True, showIdleWarning = False, idleTimerRef = None,
      warningTimerRef = None, lastActivityRef = t0, clock = t0, timers = [],
      next_timer_id = 1, document_cookie = [], location = href, console = [],
      users_db = db, logouts_pending = 0\<rparr>"

definition setTimeout :: "callback \<Rightarrow> nat \<Rightarrow> guard \<Rightarrow> nat \<times> guard" where
  "setTimeout cb delay s =
     (next_timer_id s,
      s\<lparr>timers := timers s @ [\<lparr>timer_id = next_timer_id s, timer_cb = cb,
                                timer_due = clock s + delay\<rparr>],
        next_timer_id := Suc (next_timer_id s)\<rparr>)"

definition clearTimeout :: "nat option \<Rightarrow> guard \<Rightarrow> guard" where
  "clearTimeout h s =
     (case h of
        None \<Rightarrow> s
      | Some i \<Rightarrow> s\<lparr>timers := filter (\<lambda>t. timer_id t \<noteq> i) (timers s)\<rparr>)"

definition push :: "string \<Rightarrow> guard \<Rightarrow> guard" where
  "push href s = s\<lparr>location := href\<rparr>"

definition pathname_of :: "string \<Rightarrow> string" where
  "pathname_of href = takeWhile (\<lambda>c. c \<noteq> CHR ''?'' \<and> c \<noteq> CHR ''#'') href"

definition clearIdleTimers :: "guard \<Rightarrow> guard" where
  "clearIdleTimers s = clearTimeout (warningTimerRef s) (clearTimeout (idleTimerRef s) s)"

definition showWarning :: "guard \<Rightarrow> guard" where
  "showWarning s =
     (let s1 = s\<lparr>showIdleWarning := True\<rparr>;
          (h, s2) = setTimeout HandleAutoLogout WARNING_TIME s1
      in s2\<lparr>idleTimerRef := Some h\<rparr>)"

definition resetIdleTimer :: "guard \<Rightarrow> guard" where
  "resetIdleTimer s =
     (if user s = None then s
      else
        let s1 = s\<lparr>lastActivityRef := clock s\<rparr>;
            s2 = s1\<lparr>showIdleWarning := False\<rparr>;
            s3 = clearIdleTimers s2;
            (h, s4) = setTimeout ShowWarning (IDLE_TIME - WARNING_TIME) s3
        in s4\<lparr>warningTimerRef := Some h\<rparr>)"

definition handleUserActivity :: "guard \<Rightarrow> guard" where
  "handleUserActivity s =
     (if user s \<noteq> None \<and> int (clock s) - int (lastActivityRef s) > 1000
      then resetIdleTimer s else s)"

definition extendSession :: "guard \<Rightarrow> guard" where
  "extendSession s = resetIdleTimer s"

definition childDashboardEffect :: "guard \<Rightarrow> guard" where
  "childDashboardEffect s =
     (case user s of
        None \<Rightarrow> s
      | Some u \<Rightarrow>
          if field u ''role'' = Some (FStr ''child'') \<and> pathname_of (location s) = ''/dashboard''
          then push ''/'' s else s)"

definition idleEffect :: "guard \<Rightarrow> guard" where
  "idleEffect s = (if user s = None then s else resetIdleTimer s)"

definition setUser :: "profile option \<Rightarrow> guard \<Rightarrow> guard" where
  "setUser v s =
     (if v = None \<and> user s = None then s
      else
        let s1 = (if user s = None then s else clearIdleTimers s);
            s2 = s1\<lparr>user := v\<rparr>
        in childDashboardEffect (idleEffect s2))"

text \<open>
  \<^verbatim>\<open>handleAutoLogout\<close> in its two halves: what it does before it awaits \<^verbatim>\<open>logoutUser()\<close>,
  and what it does when the call has settled. \<open>logouts_pending\<close> counts the calls that have
  not settled yet. \<open>handleAutoLogout\<close> itself is the run in which nothing happens between
  the two halves.
\<close>

definition handleAutoLogout_begin :: "guard \<Rightarrow> guard" where
  "handleAutoLogout_begin s =
     (let s1 = s\<lparr>showIdleWarning := False\<rparr>;
          s2 = clearIdleTimers s1
      in s2\<lparr>logouts_pending := Suc (logouts_pending s2)\<rparr>)"

definition handleAutoLogout_settle :: "unit promise \<Rightarrow> guard \<Rightarrow> guard" where
  "handleAutoLogout_settle logoutUser s =
     (let s2 = s\<lparr>logouts_pending := logouts_pending s - 1\<rparr>
      in case logoutUser of
           Resolved _ \<Rightarrow>
             (let s3 = s2\<lparr>document_cookie := document_cookie s2 @ [''user=;Max-Age=0; path=/'']\<rparr>;
                  s4 = setUser None s3
              in push ''/login?reason=idle'' s4)
         | Rejected err \<Rightarrow> s2\<lparr>console := console s2 @ [(''Logout error:'', err)]\<rparr>)"

definition handleAutoLogout :: "unit promise \<Rightarrow> guard \<Rightarrow> guard" where
  "handleAutoLogout logoutUser s = handleAutoLogout_settle logoutUser (handleAutoLogout_begin s)"

definition logout :: "unit promise \<Rightarrow> guard \<Rightarrow> guard \<times> string option" where
  "logout logoutUser s =
     (let s1 = clearIdleTimers s;
          s2 = s1\<lparr>showIdleWarning := False\<rparr>
      in case logoutUser of
           Resolved _ \<Rightarrow>
             (let s3 = s2\<lparr>document_cookie := document_cookie s2 @ [''user=;Max-Age=0; path=/'']\<rparr>
              in (push ''/login'' s3, None))
         | Rejected err \<Rightarrow> (s2\<lparr>console := console s2 @ [(''Logout error:'', err)]\<rparr>, Some err))"

definition login :: "login_user promise \<Rightarrow> guard \<Rightarrow> guard \<times> (string + login_user)" where
  "login loginUser s =
     (case loginUser of
        Resolved u \<Rightarrow>
          (s\<lparr>document_cookie := document_cookie s @
               [''user='' @ stringify_role_email (lu_role u) (lu_email u) @ ''; path=/'']\<rparr>,
           Inr u)
      | Rejected err \<Rightarrow> (s\<lparr>console := console s @ [(''Login error:'', err)]\<rparr>, Inl err))"

definition register ::
  "string \<Rightarrow> string \<Rightarrow> unit promise \<Rightarrow> login_user promise \<Rightarrow> guard \<Rightarrow>
   guard \<times> (string + login_user)" where
  "register email' role registerUser loginUser s =
     (case registerUser of
        Rejected err \<Rightarrow> (s\<lparr>console := console s @ [(''Register error:'', err)]\<rparr>, Inl err)
      | Resolved _ \<Rightarrow>
          (case loginUser of
             Rejected err \<Rightarrow> (s\<lparr>console := console s @ [(''Register error:'', err)]\<rparr>, Inl err)
           | Resolved u \<Rightarrow>
               (let s1 = s\<lparr>document_cookie := document_cookie s @
                          [''user='' @ stringify_role_email role email' @ ''; path=/'']\<rparr>
                in (push (if role = ''parent'' then ''/dashboard'' else ''/'') s1, Inr u))))"

definition opt_fval :: "string option \<Rightarrow> fval" where
  "opt_fval x = (case x of None \<Rightarrow> FNull | Some v \<Rightarrow> FStr v)"

definition auth_fields :: "auth_user \<Rightarrow> profile" where
  "auth_fields a =
     [(''uid'', FStr (uid a)), (''email'', opt_fval (email a)),
      (''displayName'', opt_fval (displayName a))]"

definition refreshUser :: "auth_user option \<Rightarrow> unit promise \<Rightarrow> guard \<Rightarrow> guard" where
  "refreshUser currentUser getDoc s =
     (case currentUser of
        None \<Rightarrow> s
      | Some a \<Rightarrow>
          (case getDoc of
             Rejected err \<Rightarrow> s\<lparr>console := console s @ [(''Refresh user error:'', err)]\<rparr>
           | Resolved _ \<Rightarrow>
               (case users_db s (uid a) of
                  None \<Rightarrow> s
                | Some userData \<Rightarrow> setUser (Some (auth_fields a @ userData)) s)))"

definition defaultData :: "auth_user \<Rightarrow> profile" where
  "defaultData a =
     [(''email'', opt_fval (email a)),
      (''displayName'',
         FStr (case displayName a of None \<Rightarrow> [] | Some n \<Rightarrow> n)),
      (''role'', FStr ''parent''),
      (''familyId'', FStr (uid a)),
      (''createdAt'', FServerTimestamp),
      (''updatedAt'', FServerTimestamp)]"

definition setDoc_merge :: "string \<Rightarrow> profile \<Rightarrow> guard \<Rightarrow> guard" where
  "setDoc_merge k d s =
     s\<lparr>users_db := (users_db s)(k := Some (case users_db s k of None \<Rightarrow> d | Some old \<Rightarrow> old @ d))\<rparr>"

text \<open>
  The listener of \<^verbatim>\<open>onAuthStateChanged\<close>. It awaits \<^verbatim>\<open>getDoc\<close> and, for a missing
  document, \<^verbatim>\<open>setDoc\<close>, outside any \<^verbatim>\<open>try\<close>: when one of them rejects, the rest of the
  listener does not run, \<^verbatim>\<open>setLoading(false)\<close> included.
\<close>

definition onAuthStateChanged ::
  "auth_user option \<Rightarrow> unit promise \<Rightarrow> unit promise \<Rightarrow> guard \<Rightarrow> guard" where
  "onAuthStateChanged authUser getDoc setDoc s =
     (case authUser of
        Some a \<Rightarrow>
          (case getDoc of
             Rejected err \<Rightarrow> s
           | Resolved _ \<Rightarrow>
               (case users_db s (uid a) of
                  Some data \<Rightarrow> (setUser (Some (auth_fields a @ data)) s)\<lparr>loading := False\<rparr>
                | None \<Rightarrow>
                    (case setDoc of
                       Rejected err \<Rightarrow> s
                     | Resolved _ \<Rightarrow>
                         (let s1 = setDoc_merge (uid a) (defaultData a) s;
                              s2 = setUser (Some ((''uid'', FStr (uid a)) # defaultData a)) s1
                          in s2\<lparr>loading := False\<rparr>))))
      | None \<Rightarrow>
          (let s1 = clearIdleTimers s;
               s2 = s1\<lparr>showIdleWarning := False\<rparr>;
               s3 = setUser None s2
           in s3\<lparr>loading := False\<rparr>))"

subsection \<open>The event loop\<close>

text \<open>
  What can happen to a mounted provider: the authentication listener fires, the user
  moves or types, a button of the warning is pressed, one of the functions of the context
  is called, a pending timeout whose time has come fires, an awaited logout call settles,
  time passes, or the document store changes. The reachable states are those that events
  lead to from a fresh mount.
\<close>

datatype event =
    AuthState "auth_user option" "unit promise" "unit promise"
  | Activity
  | StayLoggedIn
  | LogoutNow
  | LogoutSettles "unit promise"
  | Logout "unit promise"
  | Login "login_user promise"
  | Register string string "unit promise" "login_user promise"
  | Refresh "auth_user option" "unit promise"
  | Fire nat
  | Elapse nat
  | DbUpdate string "profile option"

definition fire :: "timer \<Rightarrow> guard \<Rightarrow> guard" where
  "fire t s =
     (let s1 = s\<lparr>timers := filter (\<lambda>x. timer_id x \<noteq> timer_id t) (timers s)\<rparr>
      in case timer_cb t of
           ShowWarning \<Rightarrow> showWarning s1
         | HandleAutoLogout \<Rightarrow> handleAutoLogout_begin s1)"

fun apply_event :: "event \<Rightarrow> guard \<Rightarrow> guard" where
  "apply_event (AuthState a getDoc setDoc) s = onAuthStateChanged a getDoc setDoc s"
| "apply_event Activity s = handleUserActivity s"
| "apply_event StayLoggedIn s = extendSession s"
| "apply_event LogoutNow s = handleAutoLogout_begin s"
| "apply_event (LogoutSettles r) s =
     (if logouts_pending s = 0 then s else handleAutoLogout_settle r s)"
| "apply_event (Logout r) s = fst (logout r s)"
| "apply_event (Login r) s = fst (login r s)"
| "apply_event (Register e ro r1 r2) s = fst (register e ro r1 r2 s)"
| "apply_event (Refresh a getDoc) s = refreshUser a getDoc s"
| "apply_event (Fire i) s =
     (case find (\<lambda>t. timer_id t = i) (timers s) of
        None \<Rightarrow> s
      | Some t \<Rightarrow> if timer_due t \<le> clock s then fire t s else s)"
| "apply_event (Elapse d) s = s\<lparr>clock := clock s + d\<rparr>"
| "apply_event (DbUpdate k d) s = s\<lparr>users_db := (users_db s)(k := d)\<rparr>"

definition run :: "event list \<Rightarrow> guard \<Rightarrow> guard" where
  "run evs s = foldl (\<lambda>st e. apply_event e st) s evs"

inductive reachable :: "guard \<Rightarrow> bool" where
  reachable_initial: "reachable (initial t0 href db)"
| reachable_event: "reachable s \<Longrightarrow> reachable (apply_event e s)"

definition warning_armed :: "guard \<Rightarrow> bool" where
  "warning_armed s = list_ex (\<lambda>t. timer_cb t = ShowWarning) (timers s)"

definition logout_armed :: "guard \<Rightarrow> bool" where
  "logout_armed s = list_ex (\<lambda>t. timer_cb t = HandleAutoLogout) (timers s)"

subsection \<open>Time passing with no event but the timers\<close>

text \<open>
  \<open>run_until logoutUser t s\<close> lets the clock run to \<open>t\<close> with no other event: every timeout
  due by then fires at its time, the earliest first, and the logout call of a logout
  timeout settles at once, with the outcome \<open>logoutUser\<close>. It terminates because a warning
  timeout arms one logout timeout and a logout timeout arms nothing.
\<close>

definition earliest :: "timer list \<Rightarrow> timer option" where
  "earliest ts =
     (case ts of
        [] \<Rightarrow> None
      | t # r \<Rightarrow> Some (foldl (\<lambda>b x. if timer_due x < timer_due b then x else b) t r))"

definition timer_weight :: "timer list \<Rightarrow> nat" where
  "timer_weight ts =
     sum_list (map (\<lambda>t. case timer_cb t of ShowWarning \<Rightarrow> 2 | HandleAutoLogout \<Rightarrow> 1) ts)"

definition fire_settled :: "unit promise \<Rightarrow> timer \<Rightarrow> guard \<Rightarrow> guard" where
  "fire_settled logoutUser t s =
     (case timer_cb t of
        ShowWarning \<Rightarrow> fire t s
      | HandleAutoLogout \<Rightarrow> handleAutoLogout_settle logoutUser (fire t s))"

function run_until :: "unit promise \<Rightarrow> nat \<Rightarrow> guard \<Rightarrow> guard" where
  "run_until logoutUser t s =
     (case earliest (filter (\<lambda>x. timer_due x \<le> t) (timers s)) of
        None \<Rightarrow> s\<lparr>clock := max (clock s) t\<rparr>
      | Some x \<Rightarrow>
          run_until logoutUser t
            (fire_settled logoutUser x (s\<lparr>clock := max (clock s) (timer_due x)\<rparr>)))"
  by pat_completeness auto
termination
proof (relation "measure (\<lambda>(r, t, s). timer_weight (timers s))")
  show "wf (measure (\<lambda>(r, t, s). timer_weight (timers s)))"
    by simp
next
  fix logoutUser :: "unit promise" and t :: nat and s :: guard and x :: timer
  assume e: "earliest (filter (\<lambda>x. timer_due x \<le> t) (timers s)) = Some x"
  have pick: "foldl (\<lambda>b y. if timer_due y < timer_due b then y else b) z zs \<in> set (z # zs)"
    for z :: timer and zs
    by (induction zs arbitrary: z) auto
  have "y \<in> set ys" if "earliest ys = Some y" for y ys
    using that pick by (auto simp: earliest_def split: list.splits)
  from this[OF e] have mem: "x \<in> set (timers s)"
    by simp
  have le: "timer_weight (filter P ts) \<le> timer_weight ts" for P and ts :: "timer list"
    by (induction ts) (auto simp: timer_weight_def)
  have less: "timer_weight (filter P ts) +
        (case timer_cb y of ShowWarning \<Rightarrow> 2 | HandleAutoLogout \<Rightarrow> 1) \<le> timer_weight ts"
    if "y \<in> set ts" and "\<not> P y" for P y and ts :: "timer list"
    using that
  proof (induction ts)
    case Nil
    then show ?case by simp
  next
    case (Cons a ts)
    show ?case
    proof (cases "y = a")
      case True
      then show ?thesis using Cons.prems le[of P ts] by (simp add: timer_weight_def)
    next
      case False
      then show ?thesis using Cons by (auto simp: timer_weight_def)
    qed
  qed
  have ct: "timer_weight (timers (clearTimeout h u)) \<le> timer_weight (timers u)" for h u
    by (cases h) (simp_all add: clearTimeout_def le)
  have ci: "timer_weight (timers (clearIdleTimers u)) \<le> timer_weight (timers u)" for u
    unfolding clearIdleTimers_def
    using ct[of "warningTimerRef u" "clearTimeout (idleTimerRef u) u"] ct[of "idleTimerRef u" u]
    by simp
  have su: "timer_weight (timers (setUser None u)) \<le> timer_weight (timers u)" for u
    using ci[of u] by (simp add: setUser_def idleEffect_def childDashboardEffect_def Let_def)
  have hb: "timer_weight (timers (handleAutoLogout_begin u)) \<le> timer_weight (timers u)" for u
    using ci[of "u\<lparr>showIdleWarning := False\<rparr>"] by (simp add: handleAutoLogout_begin_def Let_def)
  have hs: "timer_weight (timers (handleAutoLogout_settle r u)) \<le> timer_weight (timers u)"
    for r u
  proof (cases r)
    case (Resolved v)
    let ?c = "u\<lparr>logouts_pending := logouts_pending u - 1\<rparr>"
    show ?thesis
      using Resolved
        su[of "?c\<lparr>document_cookie := document_cookie ?c @ [''user=;Max-Age=0; path=/'']\<rparr>"]
      by (simp add: handleAutoLogout_settle_def Let_def push_def)
  next
    case (Rejected err)
    then show ?thesis by (simp add: handleAutoLogout_settle_def Let_def)
  qed
  have sw: "timer_weight (timers (showWarning u)) = timer_weight (timers u) + 1" for u
    by (simp add: showWarning_def setTimeout_def Let_def timer_weight_def)
  let ?s = "s\<lparr>clock := max (clock s) (timer_due x)\<rparr>"
  let ?rest = "filter (\<lambda>y. timer_id y \<noteq> timer_id x) (timers s)"
  have "timer_weight (timers (fire_settled logoutUser x ?s)) < timer_weight (timers s)"
  proof (cases "timer_cb x")
    case ShowWarning
    have "timer_weight ?rest + 2 \<le> timer_weight (timers s)"
      using less[OF mem, of "\<lambda>y. timer_id y \<noteq> timer_id x"] ShowWarning by simp
    then show ?thesis using ShowWarning by (simp add: fire_settled_def fire_def Let_def sw)
  next
    case HandleAutoLogout
    have "timer_weight ?rest + 1 \<le> timer_weight (timers s)"
      using less[OF mem, of "\<lambda>y. timer_id y \<noteq> timer_id x"] HandleAutoLogout by simp
    then show ?thesis
      using HandleAutoLogout hb[of "?s\<lparr>timers := ?rest\<rparr>"]
        hs[of logoutUser "handleAutoLogout_begin (?s\<lparr>timers := ?rest\<rparr>)"]
      by (simp add: fire_settled_def fire_def Let_def)
  qed
  then show "((logoutUser, t, fire_settled logoutUser x ?s), logoutUser, t, s)
               \<in> measure (\<lambda>(r, t, s). timer_weight (timers s))"
    by simp
qed

declare run_until.simps [simp del]

subsection \<open>The state right after sign-in, and a state with the warning on screen\<close>

text \<open>
  \<open>signed_in\<close> is a provider mounted at time \<open>t0\<close> whose listener has just received the
  user. \<open>warned\<close> is reached from a mount at time 0 on the dashboard: a parent with no
  document signs in, 25 minutes pass and the warning timeout fires. \<open>late_logout\<close> goes on
  from there: the logout button is pressed, the user moves the mouse a second later while
  the logout call is still awaited, the warning comes up again after 25 more minutes, and
  only then the logout call succeeds.
\<close>

definition signed_in ::
  "auth_user \<Rightarrow> nat \<Rightarrow> string \<Rightarrow> (string \<Rightarrow> profile option) \<Rightarrow> guard" where
  "signed_in a t0 href db =
     onAuthStateChanged (Some a) (Resolved ()) (Resolved ()) (initial t0 href db)"

definition parent0 :: auth_user where
  "parent0 = \<lparr>uid = ''u1'', email = Some ''p@x.com'', displayName = None\<rparr>"

definition warned :: guard where
  "warned =
     run [AuthState (Some parent0) (Resolved ()) (Resolved ()), Elapse 1500000, Fire 1]
       (initial 0 ''/dashboard'' Map.empty)"

definition late_logout :: guard where
  "late_logout =
     run [LogoutNow, Elapse 1000, Activity, Elapse 1500000, Fire 3, LogoutSettles (Resolved ())]
       warned"

subsection \<open>Invariants of the two timers\<close>

text \<open>
  \<open>tracked\<close>: at most one timeout is pending, and one of the two refs holds its handle, so
  \<open>clearIdleTimers\<close> cancels it. \<open>guard_inv\<close>: with the warning visible and a user signed in,
  the last recorded activity is at least \<open>IDLE_TIME - WARNING_TIME\<close> old and the one pending
  timeout is the logout; with the warning visible and no user, nothing is pending; with the
  warning hidden, either nothing is pending or a user is signed in and the one pending
  timeout is the warning, due \<open>IDLE_TIME - WARNING_TIME\<close> after the last recorded activity.
\<close>

definition tracked :: "guard \<Rightarrow> bool" where
  "tracked s \<longleftrightarrow>
     timers s = [] \<or>
     (\<exists>t. timers s = [t] \<and>
          (idleTimerRef s = Some (timer_id t) \<or> warningTimerRef s = Some (timer_id t)))"

definition guard_inv :: "guard \<Rightarrow> bool" where
  "guard_inv s \<longleftrightarrow>
     (if showIdleWarning s then
        (if user s = None then timers s = []
         else lastActivityRef s + (IDLE_TIME - WARNING_TIME) \<le> clock s \<and>
              (\<exists>i d. timers s = [\<lparr>timer_id = i, timer_cb = HandleAutoLogout, timer_due = d\<rparr>] \<and>
                     idleTimerRef s = Some i))
      else
        timers s = [] \<or>
        (user s \<noteq> None \<and>
         (\<exists>i. timers s = [\<lparr>timer_id = i, timer_cb = ShowWarning,
                            timer_due = lastActivityRef s + (IDLE_TIME - WARNING_TIME)\<rparr>] \<and>
              warningTimerRef s = Some i)))"

section \<open>The cookie between the browser and the middleware\<close>

text \<open>
  Of an assignment \<^verbatim>\<open>document.cookie = "name=value; attributes"\<close> a browser keeps the
  name and the value of the pair before the first semicolon, both without surrounding
  blanks (\<open>cookie_value\<close>). The request then carries that value in its \<^verbatim>\<open>Cookie\<close> header.
  The framework's parser of that header, which is not part of these files, applies
  \<^verbatim>\<open>decodeURIComponent\<close> to the value of every cookie and leaves out a cookie whose value does
  not decode. So \<^verbatim>\<open>request.cookies.get(name)?.value\<close>, which \<^verbatim>\<open>getUser\<close> reads, is the decoded
  value, or \<^verbatim>\<open>undefined\<close> (\<open>None\<close>) when there is no such cookie or its value does not
  decode (\<open>request_cookies_get\<close>, from what the browser has kept).
\<close>

definition trim :: "string \<Rightarrow> string" where
  "trim s =
     rev (dropWhile (\<lambda>c. c = CHR 0x20 \<or> c = CHR 0x09)
            (rev (dropWhile (\<lambda>c. c = CHR 0x20 \<or> c = CHR 0x09) s)))"

definition cookie_value :: "string \<Rightarrow> string \<Rightarrow> string option" where
  "cookie_value name assignment =
     (let pair = takeWhile (\<lambda>c. c \<noteq> CHR '';'') assignment
      in if CHR ''='' \<in> set pair \<and> trim (takeWhile (\<lambda>c. c \<noteq> CHR ''='') pair) = name
         then Some (trim (tl (dropWhile (\<lambda>c. c \<noteq> CHR ''='') pair)))
         else None)"

definition request_cookies_get :: "string option \<Rightarrow> string option" where
  "request_cookies_get kept =
     (case kept of
        None \<Rightarrow> None
      | Some v \<Rightarrow> (case decodeURIComponent v of Inl e \<Rightarrow> None | Inr decoded \<Rightarrow> Some decoded))"

text \<open>
  \<^verbatim>\<open>encodeURIComponent\<close> leaves only letters, digits and \<^verbatim>\<open>- _ . ! ~ * ' ( )\<close>
  as they are and writes every other character as percent escapes, so a URL-encoded
  text consists of these characters and \<^verbatim>\<open>%\<close>.
\<close>

definition uri_unreserved :: "char \<Rightarrow> bool" where
  "uri_unreserved c =
     (let n = of_char c :: nat
      in (48 \<le> n \<and> n \<le> 57) \<or> (65 \<le> n \<and> n \<le> 90) \<or> (97 \<le> n \<and> n \<le> 122) \<or>
         c \<in> set ''-_.!~*'' \<or> c = CHR 0x27 \<or> c = CHR ''('' \<or> c = CHR '')'')"

definition is_uri_encoded :: "string \<Rightarrow> bool" where
  "is_uri_encoded s = list_all (\<lambda>c. uri_unreserved c \<or> c = CHR ''%'') s"

section \<open>Facts about the JSON parser\<close>

text \<open>
  Every step of the lexer and of the parser consumes input, so the comparisons of lengths
  in \<open>jlex\<close>, \<open>parse_elements\<close> and \<open>parse_members\<close> always hold and the functions satisfy
  their equations without them.
\<close>

lemma lex_string_shorter: "lex_string cs = Some (us, rest) \<Longrightarrow> length rest < length cs"
proof (induction cs arbitrary: us rest rule: lex_string.induct)
  case 1
  then show ?case by simp
next
  case (2 c cs)
  show ?case
  proof (cases "c = CHR 0x22")
    case True
    with "2.prems" show ?thesis by simp
  next
    case q: False
    show ?thesis
    proof (cases "c = CHR 0x5C")
      case False
      with q "2.prems" obtain us' where "lex_string cs = Some (us', rest)"
        by (auto split: if_splits)
      from "2.IH"(3)[OF q False _ this] q False "2.prems" show ?thesis
        by (auto split: if_splits)
    next
      case True
      show ?thesis
      proof (cases cs)
        case Nil
        with q True "2.prems" show ?thesis by simp
      next
        case (Cons e r)
        show ?thesis
        proof (cases "e = CHR ''u''")
          case u: True
          with q True Cons "2.prems" obtain h1 h2 h3 h4 r' w us' where
            r: "r = h1 # h2 # h3 # h4 # r'" and h: "hex4 h1 h2 h3 h4 = Some w"
            and l: "lex_string r' = Some (us', rest)"
            by (auto split: list.splits option.splits)
          from "2.IH"(1)[OF q True Cons u r refl refl refl h l] Cons r show ?thesis by simp
        next
          case nu: False
          with q True Cons "2.prems" obtain ch us' where
            h: "simple_escape e = Some ch" and l: "lex_string r = Some (us', rest)"
            by (auto split: option.splits)
          from "2.IH"(2)[OF q True Cons nu h l] Cons show ?thesis by simp
        qed
      qed
    qed
  qed
qed

lemma lex_number_shorter:
  assumes "lex_number s = Some (t, rest)"
  shows "length rest < length s"
proof -
  define s1 where "s1 = (if startsWith s ''-'' then tl s else s)"
  define ds where "ds = (if startsWith s1 ''0'' then ''0'' else takeWhile is_digit s1)"
  define s2 where "s2 = drop (length ds) s1"
  define fs where "fs = (if startsWith s2 ''.'' then takeWhile is_digit (tl s2) else [])"
  define s3 where "s3 = (if startsWith s2 ''.'' then drop (length fs) (tl s2) else s2)"
  define s4 where "s4 = (if startsWith s3 ''e'' \<or> startsWith s3 ''E'' then tl s3 else s3)"
  define s5 where "s5 = (if (startsWith s3 ''e'' \<or> startsWith s3 ''E'') \<and>
                             (startsWith s4 ''-'' \<or> startsWith s4 ''+'') then tl s4 else s4)"
  define es where
    "es = (if startsWith s3 ''e'' \<or> startsWith s3 ''E'' then takeWhile is_digit s5 else [])"
  have eq: "lex_number s =
     (if ds = [] \<or> (startsWith s2 ''.'' \<and> fs = []) \<or>
         ((startsWith s3 ''e'' \<or> startsWith s3 ''E'') \<and> es = []) then None
      else Some (TNumber (startsWith s ''-'') (digits_value (ds @ fs))
                   ((if (startsWith s3 ''e'' \<or> startsWith s3 ''E'') \<and> startsWith s4 ''-''
                     then - int (digits_value es) else int (digits_value es)) - int (length fs)),
                 drop (length es) s5))"
    unfolding lex_number_def Let_def s1_def ds_def s2_def fs_def s3_def s4_def s5_def es_def
    by (rule refl)
  from assms have r: "rest = drop (length es) s5" and d: "ds \<noteq> []"
    unfolding eq by (simp_all split: if_splits)
  have "length s1 \<le> length s" by (simp add: s1_def)
  moreover have "length ds \<le> length s1"
    by (cases s1) (simp_all add: ds_def length_takeWhile_le)
  moreover have "length s2 = length s1 - length ds" by (simp add: s2_def)
  moreover have "length s3 \<le> length s2" by (simp add: s3_def)
  moreover have "length s4 \<le> length s3" by (simp add: s4_def)
  moreover have "length s5 \<le> length s4" by (simp add: s5_def)
  moreover have "length rest \<le> length s5" by (simp add: r)
  moreover have "0 < length ds" using d by simp
  ultimately show ?thesis by linarith
qed

lemma parse_value_cases:
  assumes "parse_value ts = Some (v, r)"
  shows "(\<exists>t. ts = t # r) \<or> (\<exists>t. ts = TLBrack # t # r) \<or> (\<exists>t. ts = TLBrace # t # r) \<or>
         (\<exists>r0 vs. ts = TLBrack # r0 \<and> parse_elements [] r0 = Some (vs, r)) \<or>
         (\<exists>r0 kvs. ts = TLBrace # r0 \<and> parse_members [] r0 = Some (kvs, r))"
  using assms
  by (subst (asm) parse_value.simps) (auto split: list.splits jtoken.splits option.splits)

lemma parse_elements_cases:
  assumes "parse_elements acc ts = Some (vs, r1)"
  shows "\<exists>v r. parse_value ts = Some (v, r) \<and>
           (r = TRBrack # r1 \<or>
            (\<exists>r'. r = TComma # r' \<and> length r' < length ts \<and>
                  parse_elements (acc @ [v]) r' = Some (vs, r1)))"
  using assms
  by (subst (asm) parse_elements.simps)
     (auto split: list.splits jtoken.splits option.splits if_splits)

lemma parse_members_cases:
  assumes "parse_members acc ts = Some (kvs, r2)"
  shows "\<exists>k ts' v r. ts = TString k # TColon # ts' \<and> parse_value ts' = Some (v, r) \<and>
           (r = TRBrace # r2 \<or>
            (\<exists>r'. r = TComma # r' \<and> length r' < length ts \<and>
                  parse_members (acc @ [(k, v)]) r' = Some (kvs, r2)))"
  using assms
  by (subst (asm) parse_members.simps)
     (auto split: list.splits jtoken.splits option.splits if_splits)

lemma parse_shorter_aux:
  "(\<forall>ts v r. 2 * length ts = n \<longrightarrow> parse_value ts = Some (v, r) \<longrightarrow> length r < length ts) \<and>
   (\<forall>acc ts vs r. 2 * length ts + 1 = n \<longrightarrow> parse_elements acc ts = Some (vs, r) \<longrightarrow>
        length r < length ts) \<and>
   (\<forall>acc ts kvs r. 2 * length ts + 1 = n \<longrightarrow> parse_members acc ts = Some (kvs, r) \<longrightarrow>
        length r < length ts)"
proof (induction n rule: less_induct)
  case (less n)
  have V: "length r < length ts"
    if "2 * length ts < n" "parse_value ts = Some (v, r)" for ts v r
    using less.IH[OF that(1)] that(2) by blast
  have E: "length r < length ts"
    if "2 * length ts + 1 < n" "parse_elements acc ts = Some (vs, r)" for acc ts vs r
    using less.IH[OF that(1)] that(2) by blast
  have M: "length r < length ts"
    if "2 * length ts + 1 < n" "parse_members acc ts = Some (kvs, r)" for acc ts kvs r
    using less.IH[OF that(1)] that(2) by blast
  have 1: "length r < length ts" if n: "2 * length ts = n" and p: "parse_value ts = Some (v, r)"
    for ts v r
  proof -
    from parse_value_cases[OF p] consider
        t where "ts = t # r"
      | t where "ts = TLBrack # t # r"
      | t where "ts = TLBrace # t # r"
      | r0 vs where "ts = TLBrack # r0" "parse_elements [] r0 = Some (vs, r)"
      | r0 kvs where "ts = TLBrace # r0" "parse_members [] r0 = Some (kvs, r)"
      by blast
    then show ?thesis
    proof cases
      case 4
      from E[OF _ 4(2)] 4(1) n show ?thesis by simp
    next
      case 5
      from M[OF _ 5(2)] 5(1) n show ?thesis by simp
    qed simp_all
  qed
  have 2: "length r1 < length ts"
    if n: "2 * length ts + 1 = n" and p: "parse_elements acc ts = Some (vs, r1)"
    for acc ts vs r1
  proof -
    from parse_elements_cases[OF p] obtain v r where
      pv: "parse_value ts = Some (v, r)" and
      c: "r = TRBrack # r1 \<or>
          (\<exists>r'. r = TComma # r' \<and> length r' < length ts \<and>
                parse_elements (acc @ [v]) r' = Some (vs, r1))"
      by blast
    from V[OF _ pv] n have lr: "length r < length ts" by simp
    from c show ?thesis
    proof
      assume "r = TRBrack # r1"
      with lr show ?thesis by simp
    next
      assume "\<exists>r'. r = TComma # r' \<and> length r' < length ts \<and>
                parse_elements (acc @ [v]) r' = Some (vs, r1)"
      then obtain r' where r': "length r' < length ts"
        and pe: "parse_elements (acc @ [v]) r' = Some (vs, r1)" by blast
      from E[OF _ pe] r' n show ?thesis by simp
    qed
  qed
  have 3: "length r2 < length ts"
    if n: "2 * length ts + 1 = n" and p: "parse_members acc ts = Some (kvs, r2)"
    for acc ts kvs r2
  proof -
    from parse_members_cases[OF p] obtain k ts' v r where
      ts: "ts = TString k # TColon # ts'" and pv: "parse_value ts' = Some (v, r)" and
      c: "r = TRBrace # r2 \<or>
          (\<exists>r'. r = TComma # r' \<and> length r' < length ts \<and>
                parse_members (acc @ [(k, v)]) r' = Some (kvs, r2))"
      by blast
    from V[OF _ pv] n ts have lr: "length r < length ts'" by simp
    from c show ?thesis
    proof
      assume "r = TRBrace # r2"
      with lr ts show ?thesis by simp
    next
      assume "\<exists>r'. r = TComma # r' \<and> length r' < length ts \<and>
                parse_members (acc @ [(k, v)]) r' = Some (kvs, r2)"
      then obtain r' where r': "length r' < length ts"
        and pm: "parse_members (acc @ [(k, v)]) r' = Some (kvs, r2)" by blast
      from M[OF _ pm] r' n show ?thesis by simp
    qed
  qed
  from 1 2 3 show ?case by blast
qed

lemma parse_value_shorter: "parse_value ts = Some (v, r) \<Longrightarrow> length r < length ts"
  using parse_shorter_aux[of "2 * length ts"] by blast

lemma parse_elements_unguarded:
  "parse_elements acc ts =
     (case parse_value ts of
        None \<Rightarrow> None
      | Some (v, r) \<Rightarrow>
          (case r of
             TComma # r' \<Rightarrow> parse_elements (acc @ [v]) r'
           | TRBrack # r' \<Rightarrow> Some (acc @ [v], r')
           | _ \<Rightarrow> None))"
  by (subst parse_elements.simps)
     (auto split: option.splits list.splits jtoken.splits dest: parse_value_shorter)

lemma parse_members_unguarded:
  "parse_members acc ts =
     (case ts of
        TString k # TColon # ts' \<Rightarrow>
          (case parse_value ts' of
             None \<Rightarrow> None
           | Some (v, r) \<Rightarrow>
               (case r of
                  TComma # r' \<Rightarrow> parse_members (acc @ [(k, v)]) r'
                | TRBrace # r' \<Rightarrow> Some (acc @ [(k, v)], r')
                | _ \<Rightarrow> None))
      | _ \<Rightarrow> None)"
  by (subst parse_members.simps)
     (auto split: option.splits list.splits jtoken.splits dest: parse_value_shorter)

lemma jlex_string_unguarded:
  "jlex (CHR 0x22 # cs) =
     (case lex_string cs of
        None \<Rightarrow> None
      | Some (us, rest) \<Rightarrow> map_option (Cons (TString (units_to_utf8 us))) (jlex rest))"
proof (cases "lex_string cs")
  case None
  then show ?thesis by (simp add: is_ws_def)
next
  case (Some p)
  obtain us rest where p: "p = (us, rest)" by (cases p)
  from lex_string_shorter[of cs us rest] Some p have "length rest < Suc (length cs)" by simp
  then show ?thesis using Some p by (simp add: is_ws_def)
qed

lemma jlex_number_unguarded:
  assumes c: "c = CHR ''-'' \<or> is_digit c"
  shows "jlex (c # cs) =
     (case lex_number (c # cs) of
        None \<Rightarrow> None
      | Some (t, rest) \<Rightarrow> map_option (Cons t) (jlex rest))"
proof -
  have n: "\<not> is_ws c" "c \<noteq> CHR ''{''" "c \<noteq> CHR ''}''" "c \<noteq> CHR ''[''" "c \<noteq> CHR '']''"
    "c \<noteq> CHR '':''" "c \<noteq> CHR '',''" "c \<noteq> CHR 0x22"
    using c by (auto simp: is_ws_def is_digit_def)
  show ?thesis
  proof (cases "lex_number (c # cs)")
    case None
    then show ?thesis using n c by simp
  next
    case (Some p)
    obtain t rest where p: "p = (t, rest)" by (cases p)
    from lex_number_shorter[of "c # cs" t rest] Some p have "length rest < Suc (length cs)"
      by simp
    then show ?thesis using Some p n c by simp
  qed
qed

section \<open>Facts about the middleware\<close>

lemma startsWith_iff: "startsWith s p \<longleftrightarrow> (\<exists>t. s = p @ t)"
  by (induction s p rule: startsWith.induct) auto

lemma parent_only_not_public: "is_parent_only p \<Longrightarrow> \<not> is_public p"
  by (auto simp: is_parent_only_def is_public_def parentOnlyRoutes_def publicRoutes_def
        startsWith_iff)

lemma parent_only_not_internal:
  "is_parent_only p \<Longrightarrow> \<not> startsWith p ''/_next'' \<and> \<not> startsWith p ''/api''"
  by (auto simp: is_parent_only_def parentOnlyRoutes_def startsWith_iff)

lemma kid_dashboard_not_public: "is_kid_dashboard p \<Longrightarrow> \<not> is_public p"
  by (auto simp: is_kid_dashboard_def is_public_def publicRoutes_def startsWith_iff)

lemma kid_dashboard_not_internal:
  "is_kid_dashboard p \<Longrightarrow> \<not> startsWith p ''/_next'' \<and> \<not> startsWith p ''/api''"
  by (auto simp: is_kid_dashboard_def startsWith_iff)

lemma role_truthy: "role_of u = Some r \<Longrightarrow> truthy u"
  by (cases u) simp_all

section \<open>Facts about the session guard\<close>

lemma guard_inv_tracked: "guard_inv s \<Longrightarrow> tracked s"
  by (auto simp: guard_inv_def tracked_def split: if_splits)

lemma clearIdleTimers_tracked: "tracked s \<Longrightarrow> clearIdleTimers s = s\<lparr>timers := []\<rparr>"
  by (auto simp: tracked_def clearIdleTimers_def clearTimeout_def split: option.splits)

lemma clearIdleTimers_fields:
  "user (clearIdleTimers x) = user x"
  "users_db (clearIdleTimers x) = users_db x"
  "console (clearIdleTimers x) = console x"
  "showIdleWarning (clearIdleTimers x) = showIdleWarning x"
  "document_cookie (clearIdleTimers x) = document_cookie x"
  "location (clearIdleTimers x) = location x"
  by (simp_all add: clearIdleTimers_def clearTimeout_def split: option.splits)

lemma resetIdleTimer_tracked:
  assumes t: "tracked s" and u: "user s \<noteq> None"
  shows "resetIdleTimer s =
     s\<lparr>lastActivityRef := clock s, showIdleWarning := False,
       timers := [\<lparr>timer_id = next_timer_id s, timer_cb = ShowWarning,
                   timer_due = clock s + (IDLE_TIME - WARNING_TIME)\<rparr>],
       next_timer_id := Suc (next_timer_id s),
       warningTimerRef := Some (next_timer_id s)\<rparr>"
proof -
  have "tracked (s\<lparr>lastActivityRef := clock s, showIdleWarning := False\<rparr>)"
    using t by (simp add: tracked_def)
  moreover from u obtain p where "user s = Some p" by auto
  ultimately show ?thesis using clearIdleTimers_tracked
    by (simp add: resetIdleTimer_def Let_def setTimeout_def)
qed

lemma resetIdleTimer_inv:
  assumes "tracked s" and "guard_inv s \<or> user s \<noteq> None"
  shows "guard_inv (resetIdleTimer s)"
proof (cases "user s = None")
  case True
  with assms(2) show ?thesis by (simp add: resetIdleTimer_def)
next
  case False
  from resetIdleTimer_tracked[OF assms(1) False] False show ?thesis
    by (simp add: guard_inv_def)
qed

lemma guard_inv_frame:
  "guard_inv (s\<lparr>document_cookie := c\<rparr>) = guard_inv s"
  "guard_inv (s\<lparr>console := l\<rparr>) = guard_inv s"
  "guard_inv (s\<lparr>location := h\<rparr>) = guard_inv s"
  "guard_inv (s\<lparr>loading := b\<rparr>) = guard_inv s"
  "guard_inv (s\<lparr>users_db := d\<rparr>) = guard_inv s"
  "guard_inv (s\<lparr>logouts_pending := n\<rparr>) = guard_inv s"
  by (simp_all add: guard_inv_def)

lemma push_inv: "guard_inv (push href s) = guard_inv s"
  by (simp add: push_def guard_inv_def)

lemma childDashboardEffect_inv: "guard_inv (childDashboardEffect s) = guard_inv s"
  by (simp add: childDashboardEffect_def push_def guard_inv_def split: option.splits)

lemma childDashboardEffect_fields:
  "user (childDashboardEffect y) = user y"
  "timers (childDashboardEffect y) = timers y"
  "clock (childDashboardEffect y) = clock y"
  "next_timer_id (childDashboardEffect y) = next_timer_id y"
  "document_cookie (childDashboardEffect y) = document_cookie y"
  "showIdleWarning (childDashboardEffect y) = showIdleWarning y"
  "users_db (childDashboardEffect y) = users_db y"
  by (simp_all add: childDashboardEffect_def push_def split: option.splits)

lemma setUser_Some_inv:
  assumes t: "tracked s"
  shows "guard_inv (setUser (Some p) s)"
proof -
  let ?s1 = "if user s = None then s else clearIdleTimers s"
  have "tracked ?s1" using t clearIdleTimers_tracked[OF t] by (simp add: tracked_def)
  then have "tracked (?s1\<lparr>user := Some p\<rparr>)" by (simp add: tracked_def)
  then have "guard_inv (resetIdleTimer (?s1\<lparr>user := Some p\<rparr>))"
    by (rule resetIdleTimer_inv) simp
  then show ?thesis
    by (simp add: setUser_def Let_def idleEffect_def childDashboardEffect_inv)
qed

lemma setUser_None_inv:
  assumes t: "tracked s" and n: "user s = None \<longrightarrow> timers s = []"
  shows "guard_inv (setUser None s)"
proof (cases "user s = None")
  case True
  then show ?thesis using n by (simp add: setUser_def guard_inv_def)
next
  case False
  then obtain p where "user s = Some p" by auto
  then show ?thesis using clearIdleTimers_tracked[OF t]
    by (simp add: setUser_def Let_def idleEffect_def childDashboardEffect_def guard_inv_def)
qed

lemma handleAutoLogout_begin_inv:
  assumes t: "tracked s"
  shows "guard_inv (handleAutoLogout_begin s)"
proof -
  have t1: "tracked (s\<lparr>showIdleWarning := False\<rparr>)" using t by (simp add: tracked_def)
  from clearIdleTimers_tracked[OF t1] show ?thesis
    by (simp add: handleAutoLogout_begin_def Let_def guard_inv_def)
qed

lemma handleAutoLogout_settle_inv:
  assumes g: "guard_inv s"
  shows "guard_inv (handleAutoLogout_settle r s)"
proof (cases r)
  case (Rejected e)
  then show ?thesis using g by (simp add: handleAutoLogout_settle_def Let_def guard_inv_frame)
next
  case (Resolved u)
  let ?s3 = "s\<lparr>logouts_pending := logouts_pending s - 1,
                document_cookie := document_cookie s @ [''user=;Max-Age=0; path=/'']\<rparr>"
  have "tracked ?s3" using guard_inv_tracked[OF g] by (simp add: tracked_def)
  moreover have "user ?s3 = None \<longrightarrow> timers ?s3 = []"
    using g by (auto simp: guard_inv_def split: if_splits)
  ultimately have "guard_inv (setUser None ?s3)" by (rule setUser_None_inv)
  then have "guard_inv (push ''/login?reason=idle'' (setUser None ?s3))"
    by (simp only: push_inv)
  then show ?thesis using Resolved by (simp add: handleAutoLogout_settle_def Let_def)
qed

lemma logout_inv:
  assumes t: "tracked s"
  shows "guard_inv (fst (logout r s))"
  using clearIdleTimers_tracked[OF t]
  by (cases r) (simp_all add: logout_def Let_def push_def guard_inv_def)

lemma onAuthStateChanged_inv:
  assumes g: "guard_inv s"
  shows "guard_inv (onAuthStateChanged a getDoc setDoc s)"
proof -
  note t = guard_inv_tracked[OF g]
  show ?thesis
  proof (cases a)
    case None
    have "guard_inv (setUser None (s\<lparr>timers := [], showIdleWarning := False\<rparr>))"
      by (rule setUser_None_inv) (simp_all add: tracked_def)
    then show ?thesis using None clearIdleTimers_tracked[OF t]
      by (simp add: onAuthStateChanged_def Let_def guard_inv_frame)
  next
    case (Some au)
    have "tracked (setDoc_merge (uid au) (defaultData au) s)"
      using t by (simp add: tracked_def setDoc_merge_def)
    then show ?thesis using Some t g
      by (simp add: onAuthStateChanged_def Let_def guard_inv_frame setUser_Some_inv
            split: option.splits promise.splits)
  qed
qed

lemma refreshUser_inv: "guard_inv s \<Longrightarrow> guard_inv (refreshUser a getDoc s)"
  by (auto simp: refreshUser_def setUser_Some_inv guard_inv_tracked guard_inv_frame
        split: option.splits promise.splits)

lemma fire_inv:
  assumes g: "guard_inv s" and f: "find (\<lambda>t. timer_id t = i) (timers s) = Some x"
    and d: "timer_due x \<le> clock s"
  shows "guard_inv (fire x s)"
proof -
  from f have nonempty: "timers s \<noteq> []" by auto
  show ?thesis
  proof (cases "showIdleWarning s")
    case True
    with g nonempty obtain j e where
      ts: "timers s = [\<lparr>timer_id = j, timer_cb = HandleAutoLogout, timer_due = e\<rparr>]"
      by (auto simp: guard_inv_def split: if_splits)
    with f have x: "x = \<lparr>timer_id = j, timer_cb = HandleAutoLogout, timer_due = e\<rparr>"
      by (simp split: if_splits)
    have "guard_inv (handleAutoLogout_begin (s\<lparr>timers := []\<rparr>))"
      by (rule handleAutoLogout_begin_inv) (simp add: tracked_def)
    then show ?thesis using x ts by (simp add: fire_def Let_def)
  next
    case False
    with g nonempty obtain j where
      ts: "timers s = [\<lparr>timer_id = j, timer_cb = ShowWarning,
                       timer_due = lastActivityRef s + (IDLE_TIME - WARNING_TIME)\<rparr>]"
      and u: "user s \<noteq> None"
      by (auto simp: guard_inv_def)
    with f have x: "x = \<lparr>timer_id = j, timer_cb = ShowWarning,
                       timer_due = lastActivityRef s + (IDLE_TIME - WARNING_TIME)\<rparr>"
      by (simp split: if_splits)
    show ?thesis using x ts u d
      by (simp add: fire_def Let_def showWarning_def setTimeout_def guard_inv_def)
  qed
qed

lemma apply_event_inv:
  assumes g: "guard_inv s"
  shows "guard_inv (apply_event e s)"
proof (cases e)
  case (AuthState a getDoc setDoc)
  then show ?thesis using g by (simp add: onAuthStateChanged_inv)
next
  case Activity
  then show ?thesis using g resetIdleTimer_inv[OF guard_inv_tracked[OF g]]
    by (simp add: handleUserActivity_def)
next
  case StayLoggedIn
  then show ?thesis using g resetIdleTimer_inv[OF guard_inv_tracked[OF g]]
    by (simp add: extendSession_def)
next
  case LogoutNow
  then show ?thesis using g by (simp add: handleAutoLogout_begin_inv guard_inv_tracked)
next
  case (LogoutSettles r)
  then show ?thesis using g by (simp add: handleAutoLogout_settle_inv)
next
  case (Logout r)
  then show ?thesis using g by (simp add: logout_inv guard_inv_tracked)
next
  case (Login r)
  then show ?thesis using g by (cases r) (simp_all add: login_def guard_inv_frame)
next
  case (Register em ro r1 r2)
  then show ?thesis using g
    by (cases r1; cases r2) (simp_all add: register_def Let_def push_def guard_inv_frame)
next
  case (Refresh a getDoc)
  then show ?thesis using g by (simp add: refreshUser_inv)
next
  case (Fire i)
  then show ?thesis using g fire_inv[OF g] by (auto split: option.splits)
next
  case (Elapse d)
  then show ?thesis using g by (auto simp: guard_inv_def)
next
  case (DbUpdate k d)
  then show ?thesis using g by (simp add: guard_inv_frame)
qed

lemma reachable_inv: "reachable s \<Longrightarrow> guard_inv s"
proof (induction rule: reachable.induct)
  case (reachable_initial t0 href db)
  show ?case by (simp add: guard_inv_def initial_def)
next
  case (reachable_event s e)
  then show ?case by (simp add: apply_event_inv)
qed

lemma reachable_run: "reachable s \<Longrightarrow> reachable (run evs s)"
  unfolding run_def
  by (induction evs arbitrary: s) (auto intro: reachable_event)

lemmas guard_defs =
  run_def initial_def onAuthStateChanged_def setDoc_merge_def setUser_def idleEffect_def
  childDashboardEffect_def resetIdleTimer_def clearIdleTimers_def clearTimeout_def
  setTimeout_def showWarning_def handleAutoLogout_def handleAutoLogout_begin_def
  handleAutoLogout_settle_def handleUserActivity_def extendSession_def fire_def push_def pathname_of_def field_def defaultData_def auth_fields_def opt_fval_def
  IDLE_TIME_def WARNING_TIME_def Let_def warning_armed_def logout_armed_def

lemma warned_eq:
  "warned =
     \<lparr>user = Some ((''uid'', FStr ''u1'') # defaultData parent0), loading = False,
      showIdleWarning = True, idleTimerRef = Some 2, warningTimerRef = Some 1,
      lastActivityRef = 0, clock = 1500000,
      timers = [\<lparr>timer_id = 2, timer_cb = HandleAutoLogout, timer_due = 1800000\<rparr>],
      next_timer_id = 3, document_cookie = [], location = ''/dashboard'', console = [],
      users_db = (Map.empty)(''u1'' := Some (defaultData parent0)), logouts_pending = 0\<rparr>"
  by (simp add: warned_def parent0_def run_def initial_def onAuthStateChanged_def
        setDoc_merge_def setUser_def idleEffect_def childDashboardEffect_def resetIdleTimer_def
        clearIdleTimers_def clearTimeout_def setTimeout_def showWarning_def fire_def push_def
        pathname_of_def field_def defaultData_def opt_fval_def IDLE_TIME_def WARNING_TIME_def
        Let_def)

lemma warned_reachable: "reachable warned"
  unfolding warned_def by (rule reachable_run) (rule reachable_initial)

lemma warned_visible: "showIdleWarning warned"
  by (simp add: warned_eq)


lemma warned_user: "user warned \<noteq> None"
  by (simp add: warned_eq)

lemma late_logout_reachable: "reachable late_logout"
  unfolding late_logout_def by (rule reachable_run) (rule warned_reachable)

lemma late_logout_fields:
  "showIdleWarning late_logout" "user late_logout = None" "timers late_logout = []"
  by (simp_all add: late_logout_def warned_eq guard_defs)

lemma earliest_single: "earliest [x] = Some x" "earliest [] = None"
  by (simp_all add: earliest_def)

lemma run_until_quiet:
  "timers s = [x] \<Longrightarrow> t < timer_due x \<Longrightarrow> run_until r t s = s\<lparr>clock := max (clock s) t\<rparr>"
  "timers s = [] \<Longrightarrow> run_until r t s = s\<lparr>clock := max (clock s) t\<rparr>"
  by (subst run_until.simps, simp add: earliest_single)+

lemma run_until_fire:
  "timers s = [x] \<Longrightarrow> timer_due x \<le> t \<Longrightarrow>
   run_until r t s =
     run_until r t (fire_settled r x (s\<lparr>clock := max (clock s) (timer_due x)\<rparr>))"
  by (subst run_until.simps) (simp add: earliest_single)

lemma handleAutoLogout_no_timers: "timers s = [] \<Longrightarrow> timers (handleAutoLogout r s) = []"
  by (cases r)
     (simp_all add: handleAutoLogout_def handleAutoLogout_begin_def handleAutoLogout_settle_def
        clearIdleTimers_def clearTimeout_def setUser_def idleEffect_def childDashboardEffect_def
        push_def Let_def split: option.splits)

lemma run_until_warning:
  assumes ts: "timers s = [\<lparr>timer_id = i, timer_cb = ShowWarning, timer_due = D\<rparr>]"
    and c: "clock s \<le> D"
  shows "t < D \<Longrightarrow> run_until r t s = s\<lparr>clock := max (clock s) t\<rparr>"
    and "D \<le> t \<Longrightarrow> t < D + WARNING_TIME \<Longrightarrow>
         run_until r t s = (showWarning (s\<lparr>clock := D, timers := []\<rparr>))\<lparr>clock := t\<rparr>"
    and "D + WARNING_TIME \<le> t \<Longrightarrow>
         run_until r t s =
           (handleAutoLogout r
              ((showWarning (s\<lparr>clock := D, timers := []\<rparr>))
                 \<lparr>clock := D + WARNING_TIME, timers := []\<rparr>))\<lparr>clock := t\<rparr>"
proof -
  show "t < D \<Longrightarrow> run_until r t s = s\<lparr>clock := max (clock s) t\<rparr>"
    using run_until_quiet(1)[OF ts, of t r] by simp
  let ?w = "showWarning (s\<lparr>clock := D, timers := []\<rparr>)"
  have tw: "timers ?w = [\<lparr>timer_id = next_timer_id s, timer_cb = HandleAutoLogout,
                          timer_due = D + WARNING_TIME\<rparr>]"
    and cw: "clock ?w = D"
    by (simp_all add: showWarning_def setTimeout_def Let_def)
  have step1: "run_until r t s = run_until r t ?w" if "D \<le> t"
    using run_until_fire[OF ts, of t r] that c
    by (simp add: fire_settled_def fire_def ts max_def)
  show "run_until r t s = ?w\<lparr>clock := t\<rparr>" if "D \<le> t" "t < D + WARNING_TIME"
    using step1[OF that(1)] run_until_quiet(1)[OF tw, of t r] that cw by (simp add: max_def)
  let ?l = "handleAutoLogout r (?w\<lparr>clock := D + WARNING_TIME, timers := []\<rparr>)"
  have cl: "clock ?l = D + WARNING_TIME"
    by (cases r)
       (simp_all add: handleAutoLogout_def handleAutoLogout_begin_def
          handleAutoLogout_settle_def clearIdleTimers_def clearTimeout_def setUser_def
          idleEffect_def childDashboardEffect_def push_def Let_def showWarning_def setTimeout_def
          split: option.splits)
  have tl: "timers ?l = []" by (rule handleAutoLogout_no_timers) simp
  show "run_until r t s = ?l\<lparr>clock := t\<rparr>" if "D + WARNING_TIME \<le> t"
  proof -
    from that have "D \<le> t" by simp
    from step1[OF this] have "run_until r t s = run_until r t ?w" .
    also have "\<dots> = run_until r t ?l"
      using run_until_fire[OF tw, of t r] that cw
      by (simp add: fire_settled_def fire_def handleAutoLogout_def tw max_def)
    also have "\<dots> = ?l\<lparr>clock := t\<rparr>"
      using run_until_quiet(2)[OF tl, of r t] that cl by (simp add: max_def)
    finally show ?thesis .
  qed
qed

lemma run_until_reachable: "reachable s \<Longrightarrow> reachable (run_until r t s)"
proof (induction r t s rule: run_until.induct)
  case (1 r t s)
  note g = reachable_inv[OF "1.prems"]
  have el: "reachable (s\<lparr>clock := max (clock s) u\<rparr>)" for u
  proof (cases "clock s \<le> u")
    case True
    then have "s\<lparr>clock := max (clock s) u\<rparr> = apply_event (Elapse (u - clock s)) s"
      by (simp add: max_def)
    then show ?thesis using reachable_event[OF "1.prems", of "Elapse (u - clock s)"]
      by (simp only:)
  next
    case False
    then have "s\<lparr>clock := max (clock s) u\<rparr> = s" by (simp add: max_def)
    then show ?thesis using "1.prems" by simp
  qed
  show ?case
  proof (cases "earliest (filter (\<lambda>x. timer_due x \<le> t) (timers s))")
    case None
    then show ?thesis using el[of t] by (subst run_until.simps) simp
  next
    case (Some x)
    from g have "timers s = [] \<or> (\<exists>y. timers s = [y])"
      by (auto simp: guard_inv_def split: if_splits)
    with Some have ts: "timers s = [x]"
      by (auto simp: earliest_def split: if_splits)
    let ?s = "s\<lparr>clock := max (clock s) (timer_due x)\<rparr>"
    have "fire x ?s = apply_event (Fire (timer_id x)) ?s"
      using ts by simp
    then have rf: "reachable (fire x ?s)"
      using reachable_event[OF el[of "timer_due x"], of "Fire (timer_id x)"] by simp
    have "reachable (fire_settled r x ?s)"
    proof (cases "timer_cb x")
      case ShowWarning
      then show ?thesis using rf by (simp add: fire_settled_def)
    next
      case HandleAutoLogout
      then have "logouts_pending (fire x ?s) \<noteq> 0"
        by (simp add: fire_def handleAutoLogout_begin_def Let_def)
      then have "handleAutoLogout_settle r (fire x ?s) = apply_event (LogoutSettles r) (fire x ?s)"
        by simp
      then show ?thesis
        using HandleAutoLogout reachable_event[OF rf, of "LogoutSettles r"]
        by (simp add: fire_settled_def)
    qed
    from "1.IH"[OF Some this] Some show ?thesis
      by (subst run_until.simps) simp
  qed
qed

lemma signed_in_reachable: "reachable (signed_in a T href db)"
  unfolding signed_in_def
  using reachable_event[OF reachable_initial,
          of "AuthState (Some a) (Resolved ()) (Resolved ())" T href db]
  by simp

lemma signed_in_fields:
  "user (signed_in a T href db) \<noteq> None"
  "timers (signed_in a T href db) =
     [\<lparr>timer_id = 1, timer_cb = ShowWarning, timer_due = T + (IDLE_TIME - WARNING_TIME)\<rparr>]"
  "clock (signed_in a T href db) = T"
  "next_timer_id (signed_in a T href db) = 2"
  "document_cookie (signed_in a T href db) = []"
  "\<not> showIdleWarning (signed_in a T href db)"
  by (simp_all add: signed_in_def onAuthStateChanged_def initial_def setDoc_merge_def setUser_def
        idleEffect_def resetIdleTimer_def clearIdleTimers_def clearTimeout_def setTimeout_def
        Let_def childDashboardEffect_fields split: option.splits)

section \<open>The claims of the specification\<close>

subsection \<open>Session guard\<close>

text \<open>
  Claim C1, as the code has it. When the logout call of the backend fails during an
  idle-triggered logout (\<open>handleAutoLogout\<close>), the error is logged, the warning is hidden
  and, in every reachable state, no timer stays armed; but the session itself is kept:
  the user in memory, the cookie and the address are what they were. Clearing the cookie,
  \<^verbatim>\<open>setUser(null)\<close> and \<^verbatim>\<open>router.push\<close> stand after the awaited call inside the \<^verbatim>\<open>try\<close>
  block, so a rejected call skips them: whatever happened while the call was awaited, the
  half of the handler that runs when the call has failed writes to the console only.
\<close>

theorem auto_logout_failure_keeps_session:
  "console (handleAutoLogout (Rejected err) s) = console s @ [(''Logout error:'', err)] \<and>
   \<not> showIdleWarning (handleAutoLogout (Rejected err) s) \<and>
   user (handleAutoLogout (Rejected err) s) = user s \<and>
   document_cookie (handleAutoLogout (Rejected err) s) = document_cookie s \<and>
   location (handleAutoLogout (Rejected err) s) = location s \<and>
   (reachable s \<longrightarrow> timers (handleAutoLogout (Rejected err) s) = []) \<and>
   handleAutoLogout_settle (Rejected err) s =
     s\<lparr>logouts_pending := logouts_pending s - 1,
       console := console s @ [(''Logout error:'', err)]\<rparr>"
proof -
  let ?c = "clearIdleTimers (s\<lparr>showIdleWarning := False\<rparr>)"
  have eq: "handleAutoLogout (Rejected err) s =
        ?c\<lparr>logouts_pending := logouts_pending ?c,
            console := console ?c @ [(''Logout error:'', err)]\<rparr>"
    by (simp add: handleAutoLogout_def handleAutoLogout_begin_def handleAutoLogout_settle_def
          Let_def)
  have "timers (handleAutoLogout (Rejected err) s) = []" if "reachable s"
  proof -
    have "tracked (s\<lparr>showIdleWarning := False\<rparr>)"
      using guard_inv_tracked[OF reachable_inv[OF that]] by (simp add: tracked_def)
    from clearIdleTimers_tracked[OF this] show ?thesis by (simp add: eq)
  qed
  moreover have "handleAutoLogout_settle (Rejected err) s =
     s\<lparr>logouts_pending := logouts_pending s - 1,
       console := console s @ [(''Logout error:'', err)]\<rparr>"
    by (simp add: handleAutoLogout_settle_def Let_def)
  ultimately show ?thesis by (simp add: eq clearIdleTimers_fields)
qed

theorem auto_logout_failure_keeps_session_witness:
  "reachable warned \<and>
   console (handleAutoLogout (Rejected ''network'') warned) = [(''Logout error:'', ''network'')] \<and>
   \<not> showIdleWarning (handleAutoLogout (Rejected ''network'') warned) \<and>
   timers (handleAutoLogout (Rejected ''network'') warned) = []"
proof -
  have c: "console warned = []" by (simp add: warned_eq)
  from auto_logout_failure_keeps_session[of "''network''" warned] warned_reachable c
  show ?thesis by simp
qed

text \<open>
  Against claim C1 as the specification words it: in the state with the warning on screen,
  a failing logout call leaves a user in memory, makes no assignment to the cookie and does
  not leave the dashboard.
\<close>

theorem auto_logout_failure_clears_nothing:
  "user (handleAutoLogout (Rejected ''network'') warned) \<noteq> None \<and>
   document_cookie (handleAutoLogout (Rejected ''network'') warned) = [] \<and>
   location (handleAutoLogout (Rejected ''network'') warned) = ''/dashboard''"
  by (simp add: warned_eq handleAutoLogout_def handleAutoLogout_begin_def
        handleAutoLogout_settle_def clearIdleTimers_def clearTimeout_def Let_def)




text \<open>
  Claim C4, as the code has it. In every reachable state at most one of the warning timer
  and the logout timer is armed; if the idle warning is visible and a user is signed in,
  the logout timer is armed; if the warning is hidden the logout timer is not armed, so
  either only the warning timer is armed or no timer is; and with no user signed in no
  timer is armed. The state with the warning hidden and no timer armed is not confined to
  sessions without a user, and the warning can be visible with no user and no timer.
\<close>

theorem timer_invariant:
  assumes "reachable s"
  shows "\<not> (warning_armed s \<and> logout_armed s) \<and>
         (showIdleWarning s \<and> user s \<noteq> None \<longrightarrow> logout_armed s) \<and>
         (\<not> showIdleWarning s \<longrightarrow>
            (warning_armed s \<and> \<not> logout_armed s) \<or> (\<not> warning_armed s \<and> \<not> logout_armed s)) \<and>
         (user s = None \<longrightarrow> \<not> warning_armed s \<and> \<not> logout_armed s)"
  using reachable_inv[OF assms]
  by (auto simp: guard_inv_def warning_armed_def logout_armed_def split: if_splits)

theorem timer_invariant_witness:
  "reachable warned \<and> showIdleWarning warned \<and> logout_armed warned \<and> \<not> warning_armed warned \<and>
   user warned \<noteq> None"
proof -
  have "\<not> warning_armed warned" by (simp add: warned_eq warning_armed_def)
  with timer_invariant[OF warned_reachable] warned_visible warned_reachable warned_user
  show ?thesis by simp
qed

text \<open>
  Against claim C4 as the specification words it, two reachable states. In the first the
  logout timer has fired and the logout call has failed: the warning is hidden and no timer
  is armed while the user is still signed in. In the second a logout call has succeeded
  after the warning had come up again: the warning is visible and no logout timer is armed.
\<close>

theorem no_timer_while_signed_in:
  "reachable (run [Elapse 300000, Fire 2, LogoutSettles (Rejected ''network'')] warned) \<and>
   \<not> showIdleWarning
       (run [Elapse 300000, Fire 2, LogoutSettles (Rejected ''network'')] warned) \<and>
   \<not> warning_armed
       (run [Elapse 300000, Fire 2, LogoutSettles (Rejected ''network'')] warned) \<and>
   \<not> logout_armed
       (run [Elapse 300000, Fire 2, LogoutSettles (Rejected ''network'')] warned) \<and>
   user (run [Elapse 300000, Fire 2, LogoutSettles (Rejected ''network'')] warned) \<noteq> None \<and>
   reachable late_logout \<and> showIdleWarning late_logout \<and> \<not> logout_armed late_logout"
proof -
  have "reachable (run [Elapse 300000, Fire 2, LogoutSettles (Rejected ''network'')] warned)"
    by (rule reachable_run) (rule warned_reachable)
  moreover have
    "\<not> showIdleWarning
         (run [Elapse 300000, Fire 2, LogoutSettles (Rejected ''network'')] warned) \<and>
     \<not> warning_armed
         (run [Elapse 300000, Fire 2, LogoutSettles (Rejected ''network'')] warned) \<and>
     \<not> logout_armed
         (run [Elapse 300000, Fire 2, LogoutSettles (Rejected ''network'')] warned) \<and>
     user (run [Elapse 300000, Fire 2, LogoutSettles (Rejected ''network'')] warned) \<noteq> None"
    by (simp add: warned_eq guard_defs)
  moreover have "\<not> logout_armed late_logout"
    by (simp add: late_logout_fields logout_armed_def)
  ultimately show ?thesis using late_logout_reachable late_logout_fields(1) by simp
qed

text \<open>
  Claim C7. For a session authenticated at time \<open>T\<close> (the claim takes \<open>T = 0\<close>) with no
  activity and no dismissal afterwards: sign-in arms the warning timer for
  \<open>IDLE_TIME - WARNING_TIME\<close>; the idle warning is hidden before \<open>T + 25\<close> minutes and
  visible from then until \<open>T + 30\<close> minutes, with the logout timer armed for
  \<open>WARNING_TIME\<close> more; at \<open>T + 30\<close> minutes the automatic logout runs: the warning is gone
  and no timer is left, and when the logout call succeeds the user is signed out, the
  cookie cleared and the router sent to the login page with the idle reason. Time passes
  here by \<open>run_until\<close>, every timeout firing at its due time; each state on the way is a
  reachable state of the event loop.
\<close>

theorem idle_schedule:
  "timers (signed_in a T href db) =
     [\<lparr>timer_id = 1, timer_cb = ShowWarning, timer_due = T + (IDLE_TIME - WARNING_TIME)\<rparr>] \<and>
   (\<forall>t. t < T + (IDLE_TIME - WARNING_TIME) \<longrightarrow>
        \<not> showIdleWarning (run_until r t (signed_in a T href db)) \<and>
        user (run_until r t (signed_in a T href db)) \<noteq> None) \<and>
   (\<forall>t. T + (IDLE_TIME - WARNING_TIME) \<le> t \<and> t < T + IDLE_TIME \<longrightarrow>
        showIdleWarning (run_until r t (signed_in a T href db)) \<and>
        user (run_until r t (signed_in a T href db)) \<noteq> None \<and>
        timers (run_until r t (signed_in a T href db)) =
          [\<lparr>timer_id = 2, timer_cb = HandleAutoLogout,
            timer_due = T + (IDLE_TIME - WARNING_TIME) + WARNING_TIME\<rparr>]) \<and>
   (\<forall>t. T + IDLE_TIME \<le> t \<longrightarrow>
        \<not> showIdleWarning (run_until r t (signed_in a T href db)) \<and>
        timers (run_until r t (signed_in a T href db)) = [] \<and>
        user (run_until (Resolved ()) t (signed_in a T href db)) = None \<and>
        location (run_until (Resolved ()) t (signed_in a T href db)) = ''/login?reason=idle'' \<and>
        document_cookie (run_until (Resolved ()) t (signed_in a T href db))
          = [''user=;Max-Age=0; path=/'']) \<and>
   (\<forall>t. reachable (run_until r t (signed_in a T href db)))"
proof -
  let ?s = "signed_in a T href db"
  let ?D = "T + (IDLE_TIME - WARNING_TIME)"
  note f = signed_in_fields[of a T href db]
  have c: "clock ?s \<le> ?D" using f(3) by simp
  note r = run_until_warning[OF f(2) c]
  have sum: "?D + WARNING_TIME = T + IDLE_TIME"
    by (simp add: IDLE_TIME_def WARNING_TIME_def)
  obtain p where p: "user ?s = Some p" using f(1) by auto
  have early: "\<not> showIdleWarning (run_until r t ?s) \<and> user (run_until r t ?s) \<noteq> None"
    if "t < ?D" for t
    using r(1)[OF that, of r] f by simp
  have mid: "showIdleWarning (run_until r t ?s) \<and> user (run_until r t ?s) \<noteq> None \<and>
        timers (run_until r t ?s) =
          [\<lparr>timer_id = 2, timer_cb = HandleAutoLogout, timer_due = ?D + WARNING_TIME\<rparr>]"
    if "?D \<le> t" "t < T + IDLE_TIME" for t
  proof -
    from that(2) sum have "t < ?D + WARNING_TIME" by simp
    from r(2)[OF that(1) this, of r] f show ?thesis
      by (simp add: showWarning_def setTimeout_def Let_def)
  qed
  have late: "\<not> showIdleWarning (run_until r' t ?s) \<and> timers (run_until r' t ?s) = []"
    if "T + IDLE_TIME \<le> t" for t r'
  proof -
    from that sum have "?D + WARNING_TIME \<le> t" by simp
    from r(3)[OF this, of r'] show ?thesis
      by (cases r')
         (simp_all add: handleAutoLogout_def handleAutoLogout_begin_def
            handleAutoLogout_settle_def clearIdleTimers_def clearTimeout_def setUser_def
            idleEffect_def childDashboardEffect_def push_def Let_def showWarning_def
            setTimeout_def split: option.splits)
  qed
  have out: "user (run_until (Resolved ()) t ?s) = None \<and>
        location (run_until (Resolved ()) t ?s) = ''/login?reason=idle'' \<and>
        document_cookie (run_until (Resolved ()) t ?s) = [''user=;Max-Age=0; path=/'']"
    if "T + IDLE_TIME \<le> t" for t
  proof -
    from that sum have "?D + WARNING_TIME \<le> t" by simp
    from r(3)[OF this, of "Resolved ()"] p f(5) show ?thesis
      by (simp add: handleAutoLogout_def handleAutoLogout_begin_def
            handleAutoLogout_settle_def clearIdleTimers_def clearTimeout_def setUser_def
            idleEffect_def childDashboardEffect_def push_def Let_def showWarning_def
            setTimeout_def split: option.splits)
  qed
  have "reachable (run_until r t ?s)" for t
    by (rule run_until_reachable) (rule signed_in_reachable)
  then show ?thesis using f(2) early mid late out by blast
qed

theorem idle_schedule_witness:
  "(1499999::nat) < 0 + (IDLE_TIME - WARNING_TIME) \<and>
   \<not> showIdleWarning
       (run_until (Resolved ()) 1499999 (signed_in parent0 0 ''/dashboard'' Map.empty)) \<and>
   0 + (IDLE_TIME - WARNING_TIME) \<le> (1500000::nat) \<and> (1500000::nat) < 0 + IDLE_TIME \<and>
   showIdleWarning
     (run_until (Resolved ()) 1500000 (signed_in parent0 0 ''/dashboard'' Map.empty)) \<and>
   (1799999::nat) < 0 + IDLE_TIME \<and>
   user (run_until (Resolved ()) 1799999 (signed_in parent0 0 ''/dashboard'' Map.empty))
     \<noteq> None \<and>
   0 + IDLE_TIME \<le> (1800000::nat) \<and>
   user (run_until (Resolved ()) 1800000 (signed_in parent0 0 ''/dashboard'' Map.empty))
     = None \<and>
   location (run_until (Resolved ()) 1800000 (signed_in parent0 0 ''/dashboard'' Map.empty))
     = ''/login?reason=idle''"
proof -
  have a: "(1499999::nat) < 0 + (IDLE_TIME - WARNING_TIME)"
    and b: "0 + (IDLE_TIME - WARNING_TIME) \<le> (1500000::nat) \<and> (1500000::nat) < 0 + IDLE_TIME"
    and c: "0 + (IDLE_TIME - WARNING_TIME) \<le> (1799999::nat) \<and> (1799999::nat) < 0 + IDLE_TIME"
    and d: "0 + IDLE_TIME \<le> (1800000::nat)"
    by (simp_all add: IDLE_TIME_def WARNING_TIME_def)
  note t = idle_schedule[of parent0 0 "''/dashboard''" Map.empty "Resolved ()"]
  from t a have 1:
    "\<not> showIdleWarning
        (run_until (Resolved ()) 1499999 (signed_in parent0 0 ''/dashboard'' Map.empty))"
    by blast
  from t b have 2:
    "showIdleWarning
       (run_until (Resolved ()) 1500000 (signed_in parent0 0 ''/dashboard'' Map.empty))"
    by blast
  from t c have 3:
    "user (run_until (Resolved ()) 1799999 (signed_in parent0 0 ''/dashboard'' Map.empty))
       \<noteq> None"
    by blast
  from t d have 4:
    "user (run_until (Resolved ()) 1800000 (signed_in parent0 0 ''/dashboard'' Map.empty))
       = None \<and>
     location (run_until (Resolved ()) 1800000 (signed_in parent0 0 ''/dashboard'' Map.empty))
       = ''/login?reason=idle''"
    by blast
  show ?thesis using a b c d 1 2 3 4 by blast
qed

text \<open>
  Claim C10. When a user authenticates and the document store has no document under their
  id, the profile that is synthesized, stored and put in memory has the role parent and
  the user's own uid as family id; when reading or writing the store fails instead, the
  listener changes nothing. So a missing document never gives a child session.
\<close>

theorem missing_document_gives_parent:
  assumes "users_db s (uid a) = None"
  shows "user (onAuthStateChanged (Some a) (Resolved ()) (Resolved ()) s)
           = Some ((''uid'', FStr (uid a)) # defaultData a) \<and>
         users_db (onAuthStateChanged (Some a) (Resolved ()) (Resolved ()) s) (uid a)
           = Some (defaultData a) \<and>
         onAuthStateChanged (Some a) (Resolved ()) (Rejected err) s = s \<and>
         onAuthStateChanged (Some a) (Rejected err) setDoc s = s \<and>
         field (defaultData a) ''role'' = Some (FStr ''parent'') \<and>
         field (defaultData a) ''familyId'' = Some (FStr (uid a)) \<and>
         field ((''uid'', FStr (uid a)) # defaultData a) ''role'' = Some (FStr ''parent'') \<and>
         field ((''uid'', FStr (uid a)) # defaultData a) ''familyId'' = Some (FStr (uid a)) \<and>
         field ((''uid'', FStr (uid a)) # defaultData a) ''role'' \<noteq> Some (FStr ''child'')"
proof -
  have ru: "user (resetIdleTimer x) = user x" "users_db (resetIdleTimer x) = users_db x" for x
    by (simp_all add: resetIdleTimer_def Let_def setTimeout_def clearIdleTimers_fields)
  have su: "user (setUser (Some p) x) = Some p" "users_db (setUser (Some p) x) = users_db x"
    for p x
    by (simp_all add: setUser_def Let_def idleEffect_def childDashboardEffect_fields ru
          clearIdleTimers_fields)
  show ?thesis using assms
    by (simp add: onAuthStateChanged_def Let_def su setDoc_merge_def field_def defaultData_def)
qed

theorem missing_document_gives_parent_witness:
  "users_db (initial 0 ''/login'' Map.empty) (uid parent0) = None \<and>
   map_option (\<lambda>p. field p ''role'')
     (user (onAuthStateChanged (Some parent0) (Resolved ()) (Resolved ())
              (initial 0 ''/login'' Map.empty)))
     = Some (Some (FStr ''parent'')) \<and>
   map_option (\<lambda>p. field p ''familyId'')
     (user (onAuthStateChanged (Some parent0) (Resolved ()) (Resolved ())
              (initial 0 ''/login'' Map.empty)))
     = Some (Some (FStr ''u1''))"
proof -
  have a: "users_db (initial 0 ''/login'' Map.empty) (uid parent0) = None"
    by (simp add: initial_def)
  have u: "uid parent0 = ''u1''" by (simp add: parent0_def)
  from missing_document_gives_parent[OF a, of "''network''" "Resolved ()"] a u
  show ?thesis by simp
qed

subsection \<open>Route middleware\<close>

text \<open>
  Claim C9. A request whose user cookie is present but malformed (decoding or parsing
  throws) is treated exactly as a request without the cookie: \<open>getUser\<close> catches the
  error and returns \<^verbatim>\<open>null\<close>, and the middleware gives the answer it gives to no session.
  No error reaches the caller: \<open>getUser\<close> and \<open>middleware\<close> return a value on every input.
\<close>

theorem malformed_cookie_is_no_session:
  assumes "getUser_try (Some c) = Inl e"
  shows "getUser (Some c) = JNull \<and> getUser (Some c) = getUser None \<and>
         middleware p (Some c) = middleware p None"
  using assms by (simp add: getUser_def getUser_try_def middleware_def)

theorem malformed_cookie_is_no_session_witness:
  "getUser_try (Some ''%7Brole'') = Inl SyntaxError \<and>
   getUser_try (Some ''%E0%A4%A'') = Inl URIError \<and>
   middleware ''/dashboard'' (Some ''%7Brole'') = Redirect ''/login'' \<and>
   middleware ''/dashboard'' (Some ''%E0%A4%A'') = Redirect ''/login'' \<and>
   middleware ''/dashboard'' None = Redirect ''/login''"
proof -
  have a: "getUser_try (Some ''%7Brole'') = Inl SyntaxError" by code_simp
  have b: "getUser_try (Some ''%E0%A4%A'') = Inl URIError" by code_simp
  have c: "middleware ''/dashboard'' None = Redirect ''/login''" by code_simp
  from malformed_cookie_is_no_session[OF a, of "''/dashboard''"]
       malformed_cookie_is_no_session[OF b, of "''/dashboard''"] a b c
  show ?thesis by simp
qed

text \<open>
  Claim C3, as the code has it. For every request path on which the middleware is run
  (\<^verbatim>\<open>config.matcher\<close>: after its slash the path does not begin with \<^verbatim>\<open>_next/static\<close>,
  \<^verbatim>\<open>_next/image\<close>, \<^verbatim>\<open>favicon.ico\<close> with any character for the dot, \<^verbatim>\<open>public\<close> or \<^verbatim>\<open>api\<close>), that
  the middleware does not bypass (it does not start with \<^verbatim>\<open>/_next\<close> or \<^verbatim>\<open>/api\<close> and contains
  no dot) and that is not in the public-route set (by exact or prefix match), a request with
  no session (absent or unparsable user cookie) is redirected to \<^verbatim>\<open>/login\<close>.
\<close>

theorem no_session_redirects_to_login:
  assumes "config_matcher p" and "\<not> bypassed p" and "\<not> is_public p"
    and "cookie = None \<or> isl (getUser_try cookie)"
  shows "on_request p cookie = Some (Redirect ''/login'')"
proof -
  have "getUser cookie = JNull"
    using assms(4) by (auto simp: getUser_def getUser_try_def isl_def)
  then show ?thesis
    using assms(1,2,3) by (simp add: on_request_def middleware_def decide_def)
qed

theorem no_session_redirects_to_login_witness:
  "config_matcher ''/my-stories'' \<and> \<not> bypassed ''/my-stories'' \<and>
   \<not> is_public ''/my-stories'' \<and> isl (getUser_try (Some ''%7B%22role%22'')) \<and>
   on_request ''/my-stories'' None = Some (Redirect ''/login'') \<and>
   on_request ''/my-stories'' (Some ''%7B%22role%22'') = Some (Redirect ''/login'')"
proof -
  have m: "config_matcher ''/my-stories''" by code_simp
  have a: "\<not> bypassed ''/my-stories''" by code_simp
  have b: "\<not> is_public ''/my-stories''" by code_simp
  have c: "isl (getUser_try (Some ''%7B%22role%22''))" by code_simp
  from no_session_redirects_to_login[OF m a b, of None]
       no_session_redirects_to_login[OF m a b, of "Some ''%7B%22role%22''"] m a b c
  show ?thesis by simp
qed

text \<open>
  Against claim C3 as the specification words it, two paths that are not public routes,
  asked for without a cookie. On \<^verbatim>\<open>/report.pdf\<close> the middleware is run and lets the request
  through, for the dot in the path. On \<^verbatim>\<open>/publications\<close> the middleware is not run, the
  path beginning with \<^verbatim>\<open>/public\<close>; run on it, the function would have redirected.
\<close>

theorem bypassed_path_is_not_redirected:
  "\<not> is_public ''/report.pdf'' \<and> getUser None = JNull \<and>
   middleware ''/report.pdf'' None = Next \<and>
   middleware ''/report.pdf'' None \<noteq> Redirect ''/login'' \<and>
   on_request ''/report.pdf'' None = Some Next \<and>
   \<not> is_public ''/publications'' \<and> \<not> bypassed ''/publications'' \<and>
   \<not> config_matcher ''/publications'' \<and>
   on_request ''/publications'' None = None \<and>
   middleware ''/publications'' None = Redirect ''/login''"
  by code_simp

text \<open>
  Claim C5, as the code has it. For every request path that matches a parent-only prefix
  (\<^verbatim>\<open>/dashboard\<close>, \<^verbatim>\<open>/create-story\<close>, \<^verbatim>\<open>/edit-story\<close>, \<^verbatim>\<open>/my-stories\<close>, \<^verbatim>\<open>/profile\<close>,
  \<^verbatim>\<open>/settings\<close>, exact or followed by a slash) and contains no dot, a request carrying a
  child-role session is redirected to the root path; and on no such path, with or without
  a dot, is it redirected to \<^verbatim>\<open>/kid-dashboard\<close>. This holds for both copies of the
  middleware.
\<close>

theorem child_leaves_parent_only_route:
  assumes "is_parent_only p"
  shows "(role_of (getUser cookie) = Some (JStr ''child'') \<longrightarrow>
            (\<not> includes_str p ''.'' \<longrightarrow> middleware p cookie = Redirect ''/'') \<and>
            middleware p cookie \<noteq> Redirect ''/kid-dashboard'') \<and>
         (role_of (getUser_part000 cookie) = Some (JStr ''child'') \<longrightarrow>
            (\<not> includes_str p ''.'' \<longrightarrow> middleware_part000 p cookie = Redirect ''/'') \<and>
            middleware_part000 p cookie \<noteq> Redirect ''/kid-dashboard'')"
proof -
  have d: "decide p u = Redirect ''/''" if "role_of u = Some (JStr ''child'')" for u
    using that role_truthy[OF that] parent_only_not_public[OF assms]
    by (simp add: decide_def assms)
  show ?thesis
    using d parent_only_not_internal[OF assms]
    by (simp add: middleware_def middleware_part000_def bypassed_def)
qed

theorem child_leaves_parent_only_route_witness:
  "is_parent_only ''/create-story/new'' \<and>
   role_of (getUser (Some ''%7B%22role%22%3A%22child%22%2C%22email%22%3A%22kid%40x.com%22%7D''))
     = Some (JStr ''child'') \<and>
   role_of (getUser_part000 (Some ''{\"role\":\"child\",\"email\":\"kid@x.com\"}''))
     = Some (JStr ''child'') \<and>
   \<not> includes_str ''/create-story/new'' ''.'' \<and>
   middleware ''/create-story/new''
     (Some ''%7B%22role%22%3A%22child%22%2C%22email%22%3A%22kid%40x.com%22%7D'') = Redirect ''/'' \<and>
   middleware_part000 ''/create-story/new''
     (Some ''{\"role\":\"child\",\"email\":\"kid@x.com\"}'') = Redirect ''/''"
proof -
  have a: "is_parent_only ''/create-story/new''" by code_simp
  have b: "role_of (getUser (Some
             ''%7B%22role%22%3A%22child%22%2C%22email%22%3A%22kid%40x.com%22%7D''))
           = Some (JStr ''child'')" by code_simp
  have c: "role_of (getUser_part000 (Some ''{\"role\":\"child\",\"email\":\"kid@x.com\"}''))
           = Some (JStr ''child'')" by code_simp
  have d: "\<not> includes_str ''/create-story/new'' ''.''" by code_simp
  from child_leaves_parent_only_route[OF a,
         of "Some ''%7B%22role%22%3A%22child%22%2C%22email%22%3A%22kid%40x.com%22%7D''"]
       b d
  have 1: "middleware ''/create-story/new''
     (Some ''%7B%22role%22%3A%22child%22%2C%22email%22%3A%22kid%40x.com%22%7D'') = Redirect ''/''"
    by blast
  from child_leaves_parent_only_route[OF a,
         of "Some ''{\"role\":\"child\",\"email\":\"kid@x.com\"}''"] c d
  have 2: "middleware_part000 ''/create-story/new''
     (Some ''{\"role\":\"child\",\"email\":\"kid@x.com\"}'') = Redirect ''/''"
    by blast
  from a b c d 1 2 show ?thesis by blast
qed

text \<open>
  Against claim C5 as the specification words it: \<^verbatim>\<open>/dashboard/report.pdf\<close> matches the
  parent-only prefix \<^verbatim>\<open>/dashboard\<close>, and a child session asking for it is let through.
\<close>

theorem child_reaches_dotted_parent_path:
  "is_parent_only ''/dashboard/report.pdf'' \<and>
   role_of (getUser (Some ''%7B%22role%22%3A%22child%22%2C%22email%22%3A%22kid%40x.com%22%7D''))
     = Some (JStr ''child'') \<and>
   middleware ''/dashboard/report.pdf''
     (Some ''%7B%22role%22%3A%22child%22%2C%22email%22%3A%22kid%40x.com%22%7D'') = Next"
  by code_simp

text \<open>
  Claim C6, as the code has it. A request carrying a parent-role session for the path
  \<^verbatim>\<open>/kid-dashboard\<close>, or for a path under \<^verbatim>\<open>/kid-dashboard/\<close> that contains no dot, is
  redirected to \<^verbatim>\<open>/dashboard\<close>. This holds for both copies of the middleware.
\<close>

theorem parent_leaves_kid_dashboard:
  assumes "is_kid_dashboard p" and "\<not> includes_str p ''.''"
  shows "(role_of (getUser cookie) = Some (JStr ''parent'') \<longrightarrow>
            middleware p cookie = Redirect ''/dashboard'') \<and>
         (role_of (getUser_part000 cookie) = Some (JStr ''parent'') \<longrightarrow>
            middleware_part000 p cookie = Redirect ''/dashboard'')"
proof -
  have b: "\<not> bypassed p"
    using assms(2) kid_dashboard_not_internal[OF assms(1)] by (simp add: bypassed_def)
  have d: "decide p u = Redirect ''/dashboard''" if "role_of u = Some (JStr ''parent'')" for u
    using that role_truthy[OF that] kid_dashboard_not_public[OF assms(1)]
    by (simp add: decide_def assms(1))
  show ?thesis using b d by (simp add: middleware_def middleware_part000_def)
qed

theorem parent_leaves_kid_dashboard_witness:
  "is_kid_dashboard ''/kid-dashboard/stories'' \<and>
   \<not> includes_str ''/kid-dashboard/stories'' ''.'' \<and>
   role_of (getUser (Some ''%7B%22role%22%3A%22parent%22%2C%22email%22%3A%22p%40x.com%22%7D''))
     = Some (JStr ''parent'') \<and>
   role_of (getUser_part000 (Some ''{\"role\":\"parent\",\"email\":\"p@x.com\"}''))
     = Some (JStr ''parent'') \<and>
   middleware ''/kid-dashboard/stories''
     (Some ''%7B%22role%22%3A%22parent%22%2C%22email%22%3A%22p%40x.com%22%7D'')
     = Redirect ''/dashboard'' \<and>
   middleware_part000 ''/kid-dashboard/stories''
     (Some ''{\"role\":\"parent\",\"email\":\"p@x.com\"}'') = Redirect ''/dashboard''"
proof -
  have a: "is_kid_dashboard ''/kid-dashboard/stories''" by code_simp
  have b: "\<not> includes_str ''/kid-dashboard/stories'' ''.''" by code_simp
  have c: "role_of (getUser (Some
             ''%7B%22role%22%3A%22parent%22%2C%22email%22%3A%22p%40x.com%22%7D''))
           = Some (JStr ''parent'')" by code_simp
  have d: "role_of (getUser_part000 (Some ''{\"role\":\"parent\",\"email\":\"p@x.com\"}''))
           = Some (JStr ''parent'')" by code_simp
  from parent_leaves_kid_dashboard[OF a b,
         of "Some ''%7B%22role%22%3A%22parent%22%2C%22email%22%3A%22p%40x.com%22%7D''"] c
  have 1: "middleware ''/kid-dashboard/stories''
     (Some ''%7B%22role%22%3A%22parent%22%2C%22email%22%3A%22p%40x.com%22%7D'')
     = Redirect ''/dashboard''"
    by blast
  from parent_leaves_kid_dashboard[OF a b,
         of "Some ''{\"role\":\"parent\",\"email\":\"p@x.com\"}''"] d
  have 2: "middleware_part000 ''/kid-dashboard/stories''
     (Some ''{\"role\":\"parent\",\"email\":\"p@x.com\"}'') = Redirect ''/dashboard''"
    by blast
  from a b c d 1 2 show ?thesis by blast
qed

text \<open>
  Against claim C6 as the specification words it: \<^verbatim>\<open>/kid-dashboard/avatar.png\<close> is a
  subpath under \<^verbatim>\<open>/kid-dashboard/\<close>, and a parent session asking for it is let through.
\<close>

theorem parent_reaches_dotted_kid_path:
  "is_kid_dashboard ''/kid-dashboard/avatar.png'' \<and>
   role_of (getUser (Some ''%7B%22role%22%3A%22parent%22%2C%22email%22%3A%22p%40x.com%22%7D''))
     = Some (JStr ''parent'') \<and>
   middleware ''/kid-dashboard/avatar.png''
     (Some ''%7B%22role%22%3A%22parent%22%2C%22email%22%3A%22p%40x.com%22%7D'') = Next"
  by code_simp

text \<open>
  Claim C8, where the code departs from it. \<open>login\<close> writes the cookie as the JSON text of
  role and email with no URL encoding, while the value is URL-decoded on its way back: by
  the framework when it reads the request's cookies and, in \<^verbatim>\<open>src/middleware.js\<close>, once more
  by \<open>getUser\<close> before it parses. No value that \<open>login\<close> writes is URL-encoded. For the role
  parent and the email \<^verbatim>\<open>a%b@x.com\<close> the value that the browser keeps does not decode, the
  request has no user cookie for the middleware, and both copies of the middleware see no
  session; for the email \<^verbatim>\<open>a%41@x.com\<close> both copies parse another email, \<^verbatim>\<open>aA@x.com\<close>.
\<close>

theorem login_cookie_round_trip_fails:
  "(\<forall>role email. \<not> is_uri_encoded (stringify_role_email role email)) \<and>
   document_cookie
     (fst (login (Resolved \<lparr>lu_role = ''parent'', lu_email = ''a%b@x.com''\<rparr>)
             (initial 0 ''/login'' Map.empty)))
     = [''user={\"role\":\"parent\",\"email\":\"a%b@x.com\"}; path=/''] \<and>
   cookie_value ''user'' ''user={\"role\":\"parent\",\"email\":\"a%b@x.com\"}; path=/''
     = Some ''{\"role\":\"parent\",\"email\":\"a%b@x.com\"}'' \<and>
   \<not> is_uri_encoded ''{\"role\":\"parent\",\"email\":\"a%b@x.com\"}'' \<and>
   request_cookies_get (Some ''{\"role\":\"parent\",\"email\":\"a%b@x.com\"}'') = None \<and>
   getUser (request_cookies_get (Some ''{\"role\":\"parent\",\"email\":\"a%b@x.com\"}''))
     = JNull \<and>
   getUser_part000
     (request_cookies_get (Some ''{\"role\":\"parent\",\"email\":\"a%b@x.com\"}''))
     = JNull \<and>
   on_request ''/dashboard''
     (request_cookies_get (Some ''{\"role\":\"parent\",\"email\":\"a%b@x.com\"}''))
     = Some (Redirect ''/login'') \<and>
   middleware_part000 ''/dashboard''
     (request_cookies_get (Some ''{\"role\":\"parent\",\"email\":\"a%b@x.com\"}''))
     = Redirect ''/login'' \<and>
   document_cookie
     (fst (login (Resolved \<lparr>lu_role = ''parent'', lu_email = ''a%41@x.com''\<rparr>)
             (initial 0 ''/login'' Map.empty)))
     = [''user={\"role\":\"parent\",\"email\":\"a%41@x.com\"}; path=/''] \<and>
   cookie_value ''user'' ''user={\"role\":\"parent\",\"email\":\"a%41@x.com\"}; path=/''
     = Some ''{\"role\":\"parent\",\"email\":\"a%41@x.com\"}'' \<and>
   request_cookies_get (Some ''{\"role\":\"parent\",\"email\":\"a%41@x.com\"}'')
     = Some ''{\"role\":\"parent\",\"email\":\"aA@x.com\"}'' \<and>
   getUser (request_cookies_get (Some ''{\"role\":\"parent\",\"email\":\"a%41@x.com\"}''))
     = JObj [(''role'', JStr ''parent''), (''email'', JStr ''aA@x.com'')] \<and>
   getUser_part000
     (request_cookies_get (Some ''{\"role\":\"parent\",\"email\":\"a%41@x.com\"}''))
     = JObj [(''role'', JStr ''parent''), (''email'', JStr ''aA@x.com'')]"
proof -
  have "\<not> is_uri_encoded (stringify_role_email role email)" for role email
    by (simp add: stringify_role_email_def is_uri_encoded_def uri_unreserved_def)
  moreover have
    "document_cookie
       (fst (login (Resolved \<lparr>lu_role = ''parent'', lu_email = ''a%b@x.com''\<rparr>)
               (initial 0 ''/login'' Map.empty)))
       = [''user={\"role\":\"parent\",\"email\":\"a%b@x.com\"}; path=/''] \<and>
     cookie_value ''user'' ''user={\"role\":\"parent\",\"email\":\"a%b@x.com\"}; path=/''
       = Some ''{\"role\":\"parent\",\"email\":\"a%b@x.com\"}'' \<and>
     \<not> is_uri_encoded ''{\"role\":\"parent\",\"email\":\"a%b@x.com\"}''"
    by code_simp
  moreover have
    "request_cookies_get (Some ''{\"role\":\"parent\",\"email\":\"a%b@x.com\"}'') = None \<and>
     getUser (request_cookies_get (Some ''{\"role\":\"parent\",\"email\":\"a%b@x.com\"}''))
       = JNull \<and>
     getUser_part000
       (request_cookies_get (Some ''{\"role\":\"parent\",\"email\":\"a%b@x.com\"}''))
       = JNull \<and>
     on_request ''/dashboard''
       (request_cookies_get (Some ''{\"role\":\"parent\",\"email\":\"a%b@x.com\"}''))
       = Some (Redirect ''/login'') \<and>
     middleware_part000 ''/dashboard''
       (request_cookies_get (Some ''{\"role\":\"parent\",\"email\":\"a%b@x.com\"}''))
       = Redirect ''/login''"
    by code_simp
  moreover have
    "document_cookie
       (fst (login (Resolved \<lparr>lu_role = ''parent'', lu_email = ''a%41@x.com''\<rparr>)
               (initial 0 ''/login'' Map.empty)))
       = [''user={\"role\":\"parent\",\"email\":\"a%41@x.com\"}; path=/''] \<and>
     cookie_value ''user'' ''user={\"role\":\"parent\",\"email\":\"a%41@x.com\"}; path=/''
       = Some ''{\"role\":\"parent\",\"email\":\"a%41@x.com\"}''"
    by code_simp
  moreover have
    "request_cookies_get (Some ''{\"role\":\"parent\",\"email\":\"a%41@x.com\"}'')
       = Some ''{\"role\":\"parent\",\"email\":\"aA@x.com\"}'' \<and>
     getUser (request_cookies_get (Some ''{\"role\":\"parent\",\"email\":\"a%41@x.com\"}''))
       = JObj [(''role'', JStr ''parent''), (''email'', JStr ''aA@x.com'')] \<and>
     getUser_part000
       (request_cookies_get (Some ''{\"role\":\"parent\",\"email\":\"a%41@x.com\"}''))
       = JObj [(''role'', JStr ''parent''), (''email'', JStr ''aA@x.com'')]"
    by code_simp
  ultimately show ?thesis by blast
qed

end
